theory Spec2Isabelle
  imports Complex_Main "HOL-Library.Log_Nat"
begin

section \<open>Floating-point numbers\<close>

text \<open>
  Millimetre positions, origins and spacings are double-precision numbers in the source
  (Python floats and numpy float64), the vote volumes are arrays of float32, and the
  agreement threshold is a Python float that numpy casts to float32 for the comparison
  with a float32 array. An argument of the model is the real number that the float
  holds; every arithmetic operation of the source is the exact operation followed by the
  rounding of its format.

  \<^verbatim>\<open>np.rint\<close> (data_loader.py, line 85) and Python's built-in \<^verbatim>\<open>round\<close> with one
  argument (lidc_loader.py, lines 494, 593, 625, 683 and 715) both round to the nearest
  integer and resolve a tie to the even neighbour.
\<close>

definition rint :: "real \<Rightarrow> int" where
  "rint x =
     (let f = \<lfloor>x\<rfloor>; d = x - of_int f
      in if d < 1 / 2 then f
         else if 1 / 2 < d then f + 1
         else if even f then f else f + 1)"

text \<open>
  The binary exponent of a real number other than 0, that is the integer \<open>e\<close> for which
  the absolute value lies between 2 to the \<open>e\<close> (included) and 2 to the \<open>e + 1\<close>
  (excluded), computed from the bit length of an integer part.
\<close>

definition expo :: "real \<Rightarrow> int" where
  "expo x =
     (if 1 \<le> \<bar>x\<bar> then bitlen \<lfloor>\<bar>x\<bar>\<rfloor> - 1
      else let k = bitlen \<lfloor>1 / \<bar>x\<bar>\<rfloor>
           in if \<bar>x\<bar> * 2 powi (k - 1) = 1 then 1 - k else - k)"

text \<open>
  Rounding to the nearest number with \<open>p\<close> significant bits and an exponent of at least
  \<open>emin\<close> (below it the numbers are subnormal and their spacing stays that of \<open>emin\<close>),
  a tie going to the even significand: the rounding of IEEE 754 before overflow is
  considered. The sign of a zero is not represented.
\<close>

definition round_to :: "nat \<Rightarrow> int \<Rightarrow> real \<Rightarrow> real" where
  "round_to p emin x =
     (if x = 0 then 0
      else let ulp = 2 powi (max (expo x) emin - (int p - 1))
           in ulp * of_int (rint (x / ulp)))"

text \<open>A floating-point datum: a finite number, an infinity or a NaN.\<close>

datatype ieee = Finite real | PlusInf | MinusInf | NotANumber

text \<open>A binary format: precision, least and greatest exponent.\<close>

type_synonym format = "nat \<times> int \<times> int"

definition binary64 :: format where
  "binary64 = (53, - 1022, 1023)"

definition binary32 :: format where
  "binary32 = (24, - 126, 127)"

text \<open>The datum of a format for a real number: rounded, infinite when it overflows.\<close>

definition fl :: "format \<Rightarrow> real \<Rightarrow> ieee" where
  "fl f x =
     (case f of (p, emin, emax) \<Rightarrow>
        let y = round_to p emin x
        in if 2 powi (emax + 1) \<le> \<bar>y\<bar> then (if 0 < y then PlusInf else MinusInf)
           else Finite y)"

text \<open>
  The powers of two, computed by repeated squaring when the model is run on examples.
\<close>

definition two_powi :: "int \<Rightarrow> real" where
  "two_powi k = 2 powi k"

text \<open>
  Division and addition as numpy performs them (a division by zero is no exception
  there, it gives an infinity or a NaN), and the comparison \<^verbatim>\<open>>=\<close>, which is False as soon
  as one side is a NaN. A zero divisor is taken to be +0.0.
\<close>

fun fdiv :: "format \<Rightarrow> ieee \<Rightarrow> ieee \<Rightarrow> ieee" where
  "fdiv f (Finite x) (Finite y) =
     (if y = 0 then (if x = 0 then NotANumber else if 0 < x then PlusInf else MinusInf)
      else fl f (x / y))"
| "fdiv f (Finite x) PlusInf = Finite 0"
| "fdiv f (Finite x) MinusInf = Finite 0"
| "fdiv f PlusInf (Finite y) = (if 0 \<le> y then PlusInf else MinusInf)"
| "fdiv f MinusInf (Finite y) = (if 0 \<le> y then MinusInf else PlusInf)"
| "fdiv f a b = NotANumber"

fun fadd :: "format \<Rightarrow> ieee \<Rightarrow> ieee \<Rightarrow> ieee" where
  "fadd f (Finite x) (Finite y) = fl f (x + y)"
| "fadd f NotANumber b = NotANumber"
| "fadd f a NotANumber = NotANumber"
| "fadd f PlusInf MinusInf = NotANumber"
| "fadd f MinusInf PlusInf = NotANumber"
| "fadd f PlusInf b = PlusInf"
| "fadd f a PlusInf = PlusInf"
| "fadd f MinusInf b = MinusInf"
| "fadd f a MinusInf = MinusInf"

fun ieee_ge :: "ieee \<Rightarrow> ieee \<Rightarrow> bool" where
  "ieee_ge (Finite x) (Finite y) = (y \<le> x)"
| "ieee_ge NotANumber b = False"
| "ieee_ge a NotANumber = False"
| "ieee_ge PlusInf b = True"
| "ieee_ge a MinusInf = True"
| "ieee_ge a b = False"

text \<open>
  \<^verbatim>\<open>np.rint(a).astype(int)\<close> on a float64 value, \<^verbatim>\<open>int\<close> being the 64-bit integer:
  \<^verbatim>\<open>np.rint\<close> of a finite double is an integer that is a double again, and the cast is
  exact when that integer is inside the 64-bit range. Outside of the range, and for an
  infinity or a NaN, the cast of an x86-64 machine gives the least 64-bit integer.
\<close>

definition to_int64 :: "ieee \<Rightarrow> int" where
  "to_int64 a =
     (case a of
        Finite x \<Rightarrow> (let r = rint x in if - (2 ^ 63) \<le> r \<and> r < 2 ^ 63 then r else - (2 ^ 63))
      | _ \<Rightarrow> - (2 ^ 63))"

section \<open>Coordinate mapping between millimetres and voxel indices\<close>

text \<open>Round half away from zero, the rule the specification asks for.\<close>

definition round_half_away :: "real \<Rightarrow> int" where
  "round_half_away x = (if 0 \<le> x then \<lfloor>x + 1 / 2\<rfloor> else \<lceil>x - 1 / 2\<rceil>)"

type_synonym vec3 = "real \<times> real \<times> real"

text \<open>
  The expression \<^verbatim>\<open>(mm - origin) / spacing\<close> on one axis, in float64: the difference is
  rounded, then the quotient.
\<close>

definition mm_quotient :: "real \<Rightarrow> real \<Rightarrow> real \<Rightarrow> ieee" where
  "mm_quotient mm origin spacing = fdiv binary64 (fl binary64 (mm - origin)) (Finite spacing)"

text \<open>
  \<^verbatim>\<open>LUNA16DataLoader.world_to_voxel\<close>:
  \<^verbatim>\<open>np.rint((world_coords - origin) / spacing).astype(int)\<close>, element-wise on the three
  axes (z, y, x).
\<close>

definition world_to_voxel :: "vec3 \<Rightarrow> vec3 \<Rightarrow> vec3 \<Rightarrow> int \<times> int \<times> int" where
  "world_to_voxel world_coords origin spacing =
     (case (world_coords, origin, spacing) of
        ((wz, wy, wx), (oz, oy, ox), (sz, sy, sx)) \<Rightarrow>
          (to_int64 (mm_quotient wz oz sz), to_int64 (mm_quotient wy oy sy),
           to_int64 (mm_quotient wx ox sx)))"

text \<open>
  \<^verbatim>\<open>LUNA16DataLoader.voxel_to_world\<close>: \<^verbatim>\<open>spacing * voxel_coords + origin\<close>. The voxel
  coordinates are 64-bit integers; numpy converts them to float64 (rounding beyond 53
  bits), multiplies and adds, each time with a rounding.
\<close>

definition index_to_mm :: "int \<Rightarrow> real \<Rightarrow> real \<Rightarrow> ieee" where
  "index_to_mm v origin spacing =
     fadd binary64 (fl binary64 (spacing * round_to 53 (- 1022) (of_int v))) (Finite origin)"

definition voxel_to_world :: "int \<times> int \<times> int \<Rightarrow> vec3 \<Rightarrow> vec3 \<Rightarrow> ieee \<times> ieee \<times> ieee" where
  "voxel_to_world voxel_coords origin spacing =
     (case (voxel_coords, origin, spacing) of
        ((vz, vy, vx), (oz, oy, ox), (sz, sy, sx)) \<Rightarrow>
          (index_to_mm vz oz sz, index_to_mm vy oy sy, index_to_mm vx ox sx))"

text \<open>
  The conversion written out in lidc_loader.py:
  \<^verbatim>\<open>z_idx = int(round((z_mm - origin[0]) / spacing[0]))\<close>. Python's \<^verbatim>\<open>round\<close> returns an
  integer of any size. On an infinite quotient or a NaN (a zero spacing, an overflow) it
  raises OverflowError or ValueError, and so does the division itself when the operands
  are plain Python floats; \<open>None\<close> stands for that exception.
\<close>

definition z_index :: "real \<Rightarrow> vec3 \<Rightarrow> vec3 \<Rightarrow> int option" where
  "z_index z_mm origin spacing =
     (case mm_quotient z_mm (fst origin) (fst spacing) of
        Finite q \<Rightarrow> Some (rint q)
      | _ \<Rightarrow> None)"

section \<open>Three-dimensional arrays and bounding boxes\<close>

text \<open>
  A numpy array of three dimensions is its shape together with the value at each index
  (axis order z, y, x); only the values at indices inside the shape are meaningful.
\<close>

record 'a ndarray =
  shape :: "nat \<times> nat \<times> nat"
  cell :: "nat \<times> nat \<times> nat \<Rightarrow> 'a"

text \<open>
  \<^verbatim>\<open>np.zeros(shape, dtype)\<close>; the fill value (0.0 or False) is the first argument. A
  negative dimension raises ValueError, which is \<open>None\<close> here.
\<close>

definition np_zeros :: "'a \<Rightarrow> int \<times> int \<times> int \<Rightarrow> 'a ndarray option" where
  "np_zeros v sh =
     (case sh of (d0, d1, d2) \<Rightarrow>
        if d0 < 0 \<or> d1 < 0 \<or> d2 < 0 then None
        else Some \<lparr>shape = (nat d0, nat d1, nat d2), cell = (\<lambda>_. v)\<rparr>)"

text \<open>A bounding box is a tuple of three Python slices, each with its start and its stop.\<close>

type_synonym bbox = "(int \<times> int) \<times> (int \<times> int) \<times> (int \<times> int)"

definition starts :: "bbox \<Rightarrow> int \<times> int \<times> int" where
  "starts b = (case b of ((z0, z1), (y0, y1), (x0, x1)) \<Rightarrow> (z0, y0, x0))"

definition stops :: "bbox \<Rightarrow> int \<times> int \<times> int" where
  "stops b = (case b of ((z0, z1), (y0, y1), (x0, x1)) \<Rightarrow> (z1, y1, x1))"

text \<open>The invariant of the data model: the shape of a mask is the extent of its box.\<close>

definition shape_matches :: "'a ndarray \<Rightarrow> bbox \<Rightarrow> bool" where
  "shape_matches m b =
     (case (shape m, b) of ((d0, d1, d2), ((z0, z1), (y0, y1), (x0, x1))) \<Rightarrow>
        int d0 = z1 - z0 \<and> int d1 = y1 - y0 \<and> int d2 = x1 - x0)"

text \<open>
  The extent that the slice \<^verbatim>\<open>a[o : o + s]\<close> selects on an axis of length \<open>L\<close>, for an
  offset \<open>o\<close> that is not negative: numpy clips both ends of a slice to the axis.
\<close>

definition slice_len :: "nat \<Rightarrow> nat \<Rightarrow> nat \<Rightarrow> nat" where
  "slice_len L o' s = min (o' + s) L - min o' L"

text \<open>
  \<^verbatim>\<open>vote_volume[o0:o0+s0, o1:o1+s1, o2:o2+s2] += mask.astype(np.float32)\<close> where
  (s0, s1, s2) is the shape of the mask. The offsets are differences to a minimum and so
  never negative. When the selected block has the shape of the mask, every True cell
  adds 1.0 in float32 (a count stays far below the overflow threshold of the format, so
  that the sum is a finite number) and every False cell adds 0.0, which changes nothing.
  Otherwise numpy broadcasts the mask to the block, which succeeds only where an
  axis of the mask has length 1 and the block is empty on that axis (nothing is written
  then), and raises ValueError in every other case (\<open>None\<close>).
  \<open>covers m offs idx\<close>: the mask \<open>m\<close>, placed at the offsets, is True at the index
  \<open>idx\<close> of the volume.
\<close>

definition covers :: "bool ndarray \<Rightarrow> int \<times> int \<times> int \<Rightarrow> nat \<times> nat \<times> nat \<Rightarrow> bool" where
  "covers m offs idx =
     (case (shape m, offs, idx) of ((s0, s1, s2), (i0, i1, i2), (z, y, x)) \<Rightarrow>
        nat i0 \<le> z \<and> z < nat i0 + s0 \<and> nat i1 \<le> y \<and> y < nat i1 + s1
        \<and> nat i2 \<le> x \<and> x < nat i2 + s2
        \<and> cell m (z - nat i0, y - nat i1, x - nat i2))"

definition add_at :: "real ndarray \<Rightarrow> int \<times> int \<times> int \<Rightarrow> bool ndarray \<Rightarrow> real ndarray option" where
  "add_at v offs m =
     (case (shape v, offs, shape m) of ((L0, L1, L2), (i0, i1, i2), (s0, s1, s2)) \<Rightarrow>
        let l0 = slice_len L0 (nat i0) s0; l1 = slice_len L1 (nat i1) s1;
            l2 = slice_len L2 (nat i2) s2
        in if l0 = s0 \<and> l1 = s1 \<and> l2 = s2 then
             Some (v\<lparr>cell := (\<lambda>idx. if covers m offs idx
                                       then round_to 24 (- 126) (cell v idx + 1)
                                       else cell v idx)\<rparr>)
           else if (l0 = s0 \<or> (s0 = 1 \<and> l0 = 0)) \<and> (l1 = s1 \<or> (s1 = 1 \<and> l1 = 0))
                 \<and> (l2 = s2 \<or> (s2 = 1 \<and> l2 = 0)) then Some v
           else None)"

text \<open>
  \<^verbatim>\<open>vote_volume /= n\<close> followed by \<^verbatim>\<open>vote_volume >= threshold\<close>, both in float32: the
  divisor and the threshold are cast to float32, the quotient is rounded to float32. For
  a divisor 0 the quotient 0/0 is a NaN, which compares False with every threshold, and a
  positive count over 0 is infinite.
\<close>

definition divide_ge :: "real ndarray \<Rightarrow> nat \<Rightarrow> real \<Rightarrow> bool ndarray" where
  "divide_ge v n threshold =
     \<lparr>shape = shape v,
      cell = (\<lambda>idx. ieee_ge (fdiv binary32 (Finite (cell v idx)) (fl binary32 (real n)))
                       (fl binary32 threshold))\<rparr>"

section \<open>The annotation store\<close>

text \<open>
  The objects of pylidc, as far as the loader reads them. A contour has its physical z
  position and the rows of \<^verbatim>\<open>to_matrix()\<close>, of which the loader uses the first two
  columns (i, j), integers. For an annotation, \<open>mask_bbox\<close> is what
  \<^verbatim>\<open>boolean_mask()\<close> and \<^verbatim>\<open>bbox()\<close> return, \<open>None\<close> when either call raises.
\<close>

record contour =
  image_z_position :: real
  to_matrix :: "(int \<times> int) list"

record annotation =
  contours :: "contour list"
  mask_bbox :: "(bool ndarray \<times> bbox) option"

record scan =
  annotations :: "annotation list"
  cluster_annotations :: "annotation list list"

text \<open>
  The loader: the pylidc query for a scan by its SeriesInstanceUID
  (\<^verbatim>\<open>pl.query(Scan).filter(...).first()\<close>), and the cache of the scans already found.
  \<^verbatim>\<open>get_scan_by_seriesuid\<close> returns the scan, if any, and the loader with its cache
  updated.
\<close>

record loader =
  query_scan :: "string \<Rightarrow> scan option"
  scan_cache :: "string \<Rightarrow> scan option"

definition get_scan_by_seriesuid :: "loader \<Rightarrow> string \<Rightarrow> scan option \<times> loader" where
  "get_scan_by_seriesuid ld seriesuid =
     (case scan_cache ld seriesuid of
        Some s \<Rightarrow> (Some s, ld)
      | None \<Rightarrow>
          (case query_scan ld seriesuid of
             Some s \<Rightarrow> (Some s, ld\<lparr>scan_cache := (scan_cache ld)(seriesuid \<mapsto> s)\<rparr>)
           | None \<Rightarrow> (None, ld)))"

text \<open>
  The result of a method of the loader is \<open>Inr (Some (mask, bbox))\<close> for a returned
  pair, \<open>Inr None\<close> for a returned \<^verbatim>\<open>None\<close>, and \<open>Inl e\<close> for an exception \<open>e\<close> that
  leaves the method. Inside a \<^verbatim>\<open>try\<close> block every exception is caught and turned into
  \<^verbatim>\<open>None\<close>; the only statement outside that can raise is the indexing of a list with a
  negative index.
\<close>

datatype py_error = IndexError

text \<open>
  \<^verbatim>\<open>xs[i]\<close> on a Python list: the element at position \<open>i\<close>, the element at
  \<open>len(xs) + i\<close> for a negative \<open>i\<close> down to \<open>-len(xs)\<close>, IndexError beyond.
\<close>

definition py_index :: "'a list \<Rightarrow> int \<Rightarrow> py_error + 'a" where
  "py_index xs i =
     (if 0 \<le> i \<and> i < int (length xs) then Inr (xs ! nat i)
      else if - int (length xs) \<le> i \<and> i < 0 then Inr (xs ! nat (int (length xs) + i))
      else Inl IndexError)"

section \<open>Consensus in the native frame\<close>

text \<open>\<^verbatim>\<open>get_annotation_mask\<close>.\<close>

definition get_annotation_mask ::
  "loader \<Rightarrow> string \<Rightarrow> int \<Rightarrow> py_error + (bool ndarray \<times> bbox) option" where
  "get_annotation_mask ld seriesuid annotation_idx =
     (case fst (get_scan_by_seriesuid ld seriesuid) of
        None \<Rightarrow> Inr None
      | Some sc \<Rightarrow>
          if int (length (annotations sc)) \<le> annotation_idx then Inr None
          else (case py_index (annotations sc) annotation_idx of
                  Inl e \<Rightarrow> Inl e
                | Inr ann \<Rightarrow> Inr (mask_bbox ann)))"

text \<open>The first loop of \<^verbatim>\<open>get_consensus_mask\<close>: one (mask, bbox) pair per annotation.\<close>

fun masks_and_bboxes :: "annotation list \<Rightarrow> (bool ndarray \<times> bbox) list option" where
  "masks_and_bboxes [] = Some []"
| "masks_and_bboxes (ann # cluster) =
     (case mask_bbox ann of
        None \<Rightarrow> None
      | Some mb \<Rightarrow>
          (case masks_and_bboxes cluster of None \<Rightarrow> None | Some mbs \<Rightarrow> Some (mb # mbs)))"

text \<open>\<^verbatim>\<open>np.min(all_starts, axis=0)\<close> and \<^verbatim>\<open>np.max(all_ends, axis=0)\<close>, on a list that is not empty.\<close>

definition min_starts :: "('a \<times> bbox) list \<Rightarrow> int \<times> int \<times> int" where
  "min_starts mbs =
     (Min (set (map (\<lambda>(m, b). fst (starts b)) mbs)),
      Min (set (map (\<lambda>(m, b). fst (snd (starts b))) mbs)),
      Min (set (map (\<lambda>(m, b). snd (snd (starts b))) mbs)))"

definition max_ends :: "('a \<times> bbox) list \<Rightarrow> int \<times> int \<times> int" where
  "max_ends mbs =
     (Max (set (map (\<lambda>(m, b). fst (stops b)) mbs)),
      Max (set (map (\<lambda>(m, b). fst (snd (stops b))) mbs)),
      Max (set (map (\<lambda>(m, b). snd (snd (stops b))) mbs)))"

definition sub3 :: "int \<times> int \<times> int \<Rightarrow> int \<times> int \<times> int \<Rightarrow> int \<times> int \<times> int" where
  "sub3 a b = (case (a, b) of ((a0, a1, a2), (b0, b1, b2)) \<Rightarrow> (a0 - b0, a1 - b1, a2 - b2))"

text \<open>\<^verbatim>\<open>offsets = [bbox[i].start - min_starts[i] for i in range(3)]\<close>.\<close>

definition offsets :: "bbox \<Rightarrow> int \<times> int \<times> int \<Rightarrow> int \<times> int \<times> int" where
  "offsets b mins = sub3 (starts b) mins"

text \<open>\<^verbatim>\<open>tuple(slice(int(min_starts[i]), int(max_ends[i])) for i in range(3))\<close>.\<close>

definition combined_bbox :: "int \<times> int \<times> int \<Rightarrow> int \<times> int \<times> int \<Rightarrow> bbox" where
  "combined_bbox mins maxs =
     (case (mins, maxs) of ((a0, a1, a2), (e0, e1, e2)) \<Rightarrow> ((a0, e0), (a1, e1), (a2, e2)))"

text \<open>The voting loop of \<^verbatim>\<open>get_consensus_mask\<close>.\<close>

fun add_votes ::
  "real ndarray \<Rightarrow> int \<times> int \<times> int \<Rightarrow> (bool ndarray \<times> bbox) list \<Rightarrow> real ndarray option" where
  "add_votes v mins [] = Some v"
| "add_votes v mins ((m, b) # rest) =
     (case add_at v (offsets b mins) m of
        None \<Rightarrow> None
      | Some v' \<Rightarrow> add_votes v' mins rest)"

text \<open>
  The body of the \<^verbatim>\<open>try\<close> block of \<^verbatim>\<open>get_consensus_mask\<close>; every exception in it is
  caught and turned into \<^verbatim>\<open>None\<close>.
\<close>

definition get_consensus_mask_try ::
  "annotation list \<Rightarrow> real \<Rightarrow> (bool ndarray \<times> bbox) option" where
  "get_consensus_mask_try cluster threshold =
     (case masks_and_bboxes cluster of
        None \<Rightarrow> None
      | Some mbs \<Rightarrow>
          if mbs = [] then None
          else
            let mins = min_starts mbs; maxs = max_ends mbs
            in (case np_zeros 0 (sub3 maxs mins) of
                  None \<Rightarrow> None
                | Some vote_volume \<Rightarrow>
                    (case add_votes vote_volume mins mbs of
                       None \<Rightarrow> None
                     | Some votes \<Rightarrow>
                         Some (divide_ge votes (length mbs) threshold,
                               combined_bbox mins maxs))))"

definition get_consensus_mask ::
  "loader \<Rightarrow> string \<Rightarrow> int \<Rightarrow> real \<Rightarrow> py_error + (bool ndarray \<times> bbox) option" where
  "get_consensus_mask ld seriesuid nodule_idx threshold =
     (case fst (get_scan_by_seriesuid ld seriesuid) of
        None \<Rightarrow> Inr None
      | Some sc \<Rightarrow>
          let nodule_clusters = cluster_annotations sc
          in if int (length nodule_clusters) \<le> nodule_idx then Inr None
             else (case py_index nodule_clusters nodule_idx of
                     Inl e \<Rightarrow> Inl e
                   | Inr cluster \<Rightarrow> Inr (get_consensus_mask_try cluster threshold)))"

section \<open>Masks aligned with a target volume\<close>

text \<open>
  \<^verbatim>\<open>skimage.draw.polygon(r, c, shape)\<close> is a library function outside the repository and
  a parameter of the model: from the row and the column coordinates of a polygon and the
  shape of the image it gives the pixels (row, column) inside the polygon, or raises
  (\<open>None\<close>). The pixel coordinates it returns for a given shape are not negative,
  hence natural numbers here.
\<close>

type_synonym polygon_fn = "int list \<Rightarrow> int list \<Rightarrow> nat \<times> nat \<Rightarrow> (nat \<times> nat) list option"

text \<open>
  \<^verbatim>\<open>mask[z_local, rr, cc] = True\<close>; an index outside the array raises IndexError.
\<close>

definition set_true :: "bool ndarray \<Rightarrow> nat \<Rightarrow> (nat \<times> nat) list \<Rightarrow> bool ndarray option" where
  "set_true msk z pix =
     (case shape msk of (d0, d1, d2) \<Rightarrow>
        if \<forall>(r, c) \<in> set pix. r < d1 \<and> c < d2 then
          Some (msk\<lparr>cell := (\<lambda>(k, i, j). (k = z \<and> (i, j) \<in> set pix) \<or> cell msk (k, i, j))\<rparr>)
        else None)"

text \<open>
  The z indices of a list of contours, in order; the first conversion that raises ends
  the computation.
\<close>

fun z_indices :: "contour list \<Rightarrow> vec3 \<Rightarrow> vec3 \<Rightarrow> int list option" where
  "z_indices [] origin spacing = Some []"
| "z_indices (c # cs) origin spacing =
     (case z_index (image_z_position c) origin spacing of
        None \<Rightarrow> None
      | Some z \<Rightarrow>
          (case z_indices cs origin spacing of None \<Rightarrow> None | Some zs \<Rightarrow> Some (z # zs)))"

text \<open>The contours whose slice index lies in the volume: \<^verbatim>\<open>0 <= z_idx < ct_shape[0]\<close>.\<close>

definition valid_contours ::
  "contour list \<Rightarrow> vec3 \<Rightarrow> vec3 \<Rightarrow> int \<times> int \<times> int \<Rightarrow> (contour \<times> int) list option" where
  "valid_contours cs origin spacing ct_shape =
     (case z_indices cs origin spacing of
        None \<Rightarrow> None
      | Some zs \<Rightarrow> Some (filter (\<lambda>(c, z). 0 \<le> z \<and> z < fst ct_shape) (zip cs zs)))"

text \<open>
  The bounds ((z_min, z_max), (y_min, y_max), (x_min, x_max)) of a list of valid contours
  that is not empty, the last two clamped to the volume. \<^verbatim>\<open>min\<close> of an empty sequence
  of coordinates raises ValueError.
\<close>

definition contour_bounds :: "(contour \<times> int) list \<Rightarrow> int \<times> int \<times> int \<Rightarrow> bbox option" where
  "contour_bounds valid ct_shape =
     (let all_z = map snd valid;
          all_y = concat (map (\<lambda>(c, z). map fst (to_matrix c)) valid);
          all_x = concat (map (\<lambda>(c, z). map snd (to_matrix c)) valid)
      in if all_y = [] \<or> all_x = [] then None
         else
           Some ((Min (set all_z), Max (set all_z)),
                 (max 0 (Min (set all_y)), min (fst (snd ct_shape)) (Max (set all_y) + 1)),
                 (max 0 (Min (set all_x)), min (snd (snd ct_shape)) (Max (set all_x) + 1))))"

text \<open>\<^verbatim>\<open>mask_shape = (z_max - z_min + 1, y_max - y_min, x_max - x_min)\<close>.\<close>

definition mask_shape :: "bbox \<Rightarrow> int \<times> int \<times> int" where
  "mask_shape bounds =
     (case bounds of ((z_min, z_max), (y_min, y_max), (x_min, x_max)) \<Rightarrow>
        (z_max - z_min + 1, y_max - y_min, x_max - x_min))"

text \<open>\<^verbatim>\<open>bbox = (slice(z_min, z_max + 1), slice(y_min, y_max), slice(x_min, x_max))\<close>.\<close>

definition bounds_bbox :: "bbox \<Rightarrow> bbox" where
  "bounds_bbox bounds =
     (case bounds of ((z_min, z_max), (y_min, y_max), (x_min, x_max)) \<Rightarrow>
        ((z_min, z_max + 1), (y_min, y_max), (x_min, x_max)))"

text \<open>
  \<^verbatim>\<open>polygon(coords[:, 0] - y_min, coords[:, 1] - x_min, shape=(y_max - y_min, x_max - x_min))\<close>:
  the pixels of one contour, in the coordinates of the box.
\<close>

definition contour_polygon :: "polygon_fn \<Rightarrow> bbox \<Rightarrow> contour \<Rightarrow> (nat \<times> nat) list option" where
  "contour_polygon polygon bounds c =
     (case bounds of ((z_min, z_max), (y_min, y_max), (x_min, x_max)) \<Rightarrow>
        polygon (map (\<lambda>(i, j). i - y_min) (to_matrix c))
                (map (\<lambda>(i, j). j - x_min) (to_matrix c))
                (nat (y_max - y_min), nat (x_max - x_min)))"

text \<open>
  The body shared by the rasterising loops: the polygon of one contour is filled into the
  slice \<^verbatim>\<open>z_local = z_idx - z_min\<close> of the mask when that slice exists.
\<close>

definition draw_contour ::
  "polygon_fn \<Rightarrow> bbox \<Rightarrow> contour \<Rightarrow> int \<Rightarrow> bool ndarray \<Rightarrow> bool ndarray option" where
  "draw_contour polygon bounds c z_idx msk =
     (case contour_polygon polygon bounds c of
        None \<Rightarrow> None
      | Some pix \<Rightarrow>
          let z_local = z_idx - fst (fst bounds)
          in if 0 \<le> z_local \<and> z_local < int (fst (shape msk))
             then set_true msk (nat z_local) pix
             else Some msk)"

text \<open>The rasterising loop of \<^verbatim>\<open>get_aligned_mask\<close>, over the valid contours.\<close>

fun fill_valid ::
  "polygon_fn \<Rightarrow> bbox \<Rightarrow> (contour \<times> int) list \<Rightarrow> bool ndarray \<Rightarrow> bool ndarray option" where
  "fill_valid polygon bounds [] msk = Some msk"
| "fill_valid polygon bounds ((c, z_idx) # rest) msk =
     (case draw_contour polygon bounds c z_idx msk of
        None \<Rightarrow> None
      | Some msk' \<Rightarrow> fill_valid polygon bounds rest msk')"

text \<open>The body of the \<^verbatim>\<open>try\<close> block of \<^verbatim>\<open>get_aligned_mask\<close>.\<close>

definition get_aligned_mask_try ::
  "polygon_fn \<Rightarrow> annotation \<Rightarrow> vec3 \<Rightarrow> vec3 \<Rightarrow> int \<times> int \<times> int
     \<Rightarrow> (bool ndarray \<times> bbox) option" where
  "get_aligned_mask_try polygon ann origin spacing ct_shape =
     (if contours ann = [] then None
      else
        (case valid_contours (contours ann) origin spacing ct_shape of
           None \<Rightarrow> None
         | Some valid \<Rightarrow>
             if valid = [] then None
             else
               (case contour_bounds valid ct_shape of
                  None \<Rightarrow> None
                | Some bounds \<Rightarrow>
                    (case np_zeros False (mask_shape bounds) of
                       None \<Rightarrow> None
                     | Some msk \<Rightarrow>
                         (case fill_valid polygon bounds valid msk of
                            None \<Rightarrow> None
                          | Some msk' \<Rightarrow> Some (msk', bounds_bbox bounds))))))"

definition get_aligned_mask ::
  "polygon_fn \<Rightarrow> loader \<Rightarrow> string \<Rightarrow> int \<Rightarrow> vec3 \<Rightarrow> vec3 \<Rightarrow> int \<times> int \<times> int
     \<Rightarrow> py_error + (bool ndarray \<times> bbox) option" where
  "get_aligned_mask polygon ld seriesuid annotation_idx origin spacing ct_shape =
     (case fst (get_scan_by_seriesuid ld seriesuid) of
        None \<Rightarrow> Inr None
      | Some sc \<Rightarrow>
          if int (length (annotations sc)) \<le> annotation_idx then Inr None
          else (case py_index (annotations sc) annotation_idx of
                  Inl e \<Rightarrow> Inl e
                | Inr ann \<Rightarrow> Inr (get_aligned_mask_try polygon ann origin spacing ct_shape)))"

text \<open>
  The inner loop of the consensus functions, over every contour of one annotation: a
  contour is drawn when \<^verbatim>\<open>z_min <= z_idx <= z_max\<close>.
\<close>

fun fill_annotation ::
  "polygon_fn \<Rightarrow> bbox \<Rightarrow> vec3 \<Rightarrow> vec3 \<Rightarrow> contour list \<Rightarrow> bool ndarray \<Rightarrow> bool ndarray option" where
  "fill_annotation polygon bounds origin spacing [] ann_mask = Some ann_mask"
| "fill_annotation polygon bounds origin spacing (c # cs) ann_mask =
     (case z_index (image_z_position c) origin spacing of
        None \<Rightarrow> None
      | Some z_idx \<Rightarrow>
          if fst (fst bounds) \<le> z_idx \<and> z_idx \<le> snd (fst bounds) then
            (case draw_contour polygon bounds c z_idx ann_mask of
               None \<Rightarrow> None
             | Some ann_mask' \<Rightarrow> fill_annotation polygon bounds origin spacing cs ann_mask')
          else fill_annotation polygon bounds origin spacing cs ann_mask)"

text \<open>The boolean mask of one annotation inside the box of the cluster.\<close>

definition annotation_mask ::
  "polygon_fn \<Rightarrow> bbox \<Rightarrow> vec3 \<Rightarrow> vec3 \<Rightarrow> annotation \<Rightarrow> bool ndarray option" where
  "annotation_mask polygon bounds origin spacing ann =
     (case np_zeros False (mask_shape bounds) of
        None \<Rightarrow> None
      | Some ann_mask \<Rightarrow> fill_annotation polygon bounds origin spacing (contours ann) ann_mask)"

text \<open>
  \<^verbatim>\<open>vote_volume += ann_mask.astype(np.float32)\<close>, on arrays of one shape: 1.0 is added in
  float32 where the mask is True.
\<close>

definition add_mask :: "real ndarray \<Rightarrow> bool ndarray \<Rightarrow> real ndarray" where
  "add_mask v m =
     v\<lparr>cell := (\<lambda>idx. if cell m idx then round_to 24 (- 126) (cell v idx + 1) else cell v idx)\<rparr>"

text \<open>The voting loop: one boolean mask and one vote per annotation.\<close>

fun count_votes ::
  "polygon_fn \<Rightarrow> bbox \<Rightarrow> vec3 \<Rightarrow> vec3 \<Rightarrow> annotation list \<Rightarrow> real ndarray \<Rightarrow> real ndarray option" where
  "count_votes polygon bounds origin spacing [] vote_volume = Some vote_volume"
| "count_votes polygon bounds origin spacing (ann # cluster) vote_volume =
     (case annotation_mask polygon bounds origin spacing ann of
        None \<Rightarrow> None
      | Some ann_mask \<Rightarrow>
          count_votes polygon bounds origin spacing cluster (add_mask vote_volume ann_mask))"

text \<open>
  The statements that \<^verbatim>\<open>get_aligned_consensus_mask\<close> and
  \<^verbatim>\<open>get_aligned_mask_for_cluster\<close> share, from the collection of the contours up to the
  end of the voting loop: the vote volume before it is divided, with the bounds.
\<close>

definition aligned_vote_volume ::
  "polygon_fn \<Rightarrow> annotation list \<Rightarrow> vec3 \<Rightarrow> vec3 \<Rightarrow> int \<times> int \<times> int
     \<Rightarrow> (real ndarray \<times> bbox) option" where
  "aligned_vote_volume polygon cluster origin spacing ct_shape =
     (case valid_contours (concat (map contours cluster)) origin spacing ct_shape of
        None \<Rightarrow> None
      | Some all_contour_data \<Rightarrow>
          if all_contour_data = [] then None
          else
            (case contour_bounds all_contour_data ct_shape of
               None \<Rightarrow> None
             | Some bounds \<Rightarrow>
                 (case np_zeros 0 (mask_shape bounds) of
                    None \<Rightarrow> None
                  | Some vote_volume \<Rightarrow>
                      (case count_votes polygon bounds origin spacing cluster vote_volume of
                         None \<Rightarrow> None
                       | Some votes \<Rightarrow> Some (votes, bounds)))))"

text \<open>The body of the \<^verbatim>\<open>try\<close> block of \<^verbatim>\<open>get_aligned_consensus_mask\<close>.\<close>

definition get_aligned_consensus_mask_try ::
  "polygon_fn \<Rightarrow> annotation list \<Rightarrow> vec3 \<Rightarrow> vec3 \<Rightarrow> int \<times> int \<times> int \<Rightarrow> real
     \<Rightarrow> (bool ndarray \<times> bbox) option" where
  "get_aligned_consensus_mask_try polygon cluster origin spacing ct_shape threshold =
     (case aligned_vote_volume polygon cluster origin spacing ct_shape of
        None \<Rightarrow> None
      | Some (votes, bounds) \<Rightarrow>
          Some (divide_ge votes (length cluster) threshold, bounds_bbox bounds))"

definition get_aligned_consensus_mask ::
  "polygon_fn \<Rightarrow> loader \<Rightarrow> string \<Rightarrow> int \<Rightarrow> vec3 \<Rightarrow> vec3 \<Rightarrow> int \<times> int \<times> int \<Rightarrow> real
     \<Rightarrow> py_error + (bool ndarray \<times> bbox) option" where
  "get_aligned_consensus_mask polygon ld seriesuid nodule_idx origin spacing ct_shape threshold =
     (case fst (get_scan_by_seriesuid ld seriesuid) of
        None \<Rightarrow> Inr None
      | Some sc \<Rightarrow>
          let nodule_clusters = cluster_annotations sc
          in if int (length nodule_clusters) \<le> nodule_idx then Inr None
             else (case py_index nodule_clusters nodule_idx of
                     Inl e \<Rightarrow> Inl e
                   | Inr cluster \<Rightarrow>
                       Inr (get_aligned_consensus_mask_try polygon cluster origin spacing
                              ct_shape threshold)))"

text \<open>\<^verbatim>\<open>get_aligned_mask_for_cluster\<close>: the same body behind a test for the empty cluster.\<close>

definition get_aligned_mask_for_cluster ::
  "polygon_fn \<Rightarrow> annotation list \<Rightarrow> vec3 \<Rightarrow> vec3 \<Rightarrow> int \<times> int \<times> int \<Rightarrow> real
     \<Rightarrow> (bool ndarray \<times> bbox) option" where
  "get_aligned_mask_for_cluster polygon cluster origin spacing ct_shape threshold =
     (if cluster = [] then None
      else
        (case aligned_vote_volume polygon cluster origin spacing ct_shape of
           None \<Rightarrow> None
         | Some (votes, bounds) \<Rightarrow>
             Some (divide_ge votes (length cluster) threshold, bounds_bbox bounds)))"

section \<open>Notions used in the statements\<close>

text \<open>
  \<open>fits L offs s\<close>: a block of shape \<open>s\<close> placed at the offsets \<open>offs\<close> lies inside an
  array of shape \<open>L\<close>: no offset is negative and the block ends inside on every axis.
\<close>

definition fits :: "nat \<times> nat \<times> nat \<Rightarrow> int \<times> int \<times> int \<Rightarrow> nat \<times> nat \<times> nat \<Rightarrow> bool" where
  "fits L offs s =
     (case (L, offs, s) of ((L0, L1, L2), (i0, i1, i2), (s0, s1, s2)) \<Rightarrow>
        0 \<le> i0 \<and> i0 + int s0 \<le> int L0 \<and> 0 \<le> i1 \<and> i1 + int s1 \<le> int L1
        \<and> 0 \<le> i2 \<and> i2 + int s2 \<le> int L2)"

text \<open>
  \<open>mask_at m b vox\<close>: the mask \<open>m\<close> of the box \<open>b\<close> is True at the voxel \<open>vox\<close>, given
  by its coordinates in the frame of the scan (not in the box): the voxel lies in the box
  and the cell of the mask at the voxel minus the start of the box is True.
\<close>

definition mask_at :: "bool ndarray \<Rightarrow> bbox \<Rightarrow> int \<times> int \<times> int \<Rightarrow> bool" where
  "mask_at m b vox =
     (case (b, vox) of (((z0, z1), (y0, y1), (x0, x1)), (z, y, x)) \<Rightarrow>
        z0 \<le> z \<and> z < z1 \<and> y0 \<le> y \<and> y < y1 \<and> x0 \<le> x \<and> x < x1
        \<and> cell m (nat (z - z0), nat (y - y0), nat (x - x0)))"

text \<open>The number of (mask, box) pairs of a list that are True at a voxel of the scan.\<close>

definition votes_at :: "(bool ndarray \<times> bbox) list \<Rightarrow> int \<times> int \<times> int \<Rightarrow> nat" where
  "votes_at mbs vox = length (filter (\<lambda>(m, b). mask_at m b vox) mbs)"

text \<open>
  \<open>marks polygon origin spacing b ann vox\<close>: the annotation marks the voxel \<open>vox\<close> of the
  target volume, seen through the box \<open>b\<close>: the voxel is on a slice of the box, one of
  the contours of the annotation has its z position on that slice, and the polygon of
  that contour, filled in the rows and columns of the box, contains the voxel.
\<close>

definition marks ::
  "polygon_fn \<Rightarrow> vec3 \<Rightarrow> vec3 \<Rightarrow> bbox \<Rightarrow> annotation \<Rightarrow> int \<times> int \<times> int \<Rightarrow> bool" where
  "marks polygon origin spacing b ann vox =
     (case (b, vox) of (((z0, z1), (y0, y1), (x0, x1)), (z, y, x)) \<Rightarrow>
        z0 \<le> z \<and> z < z1 \<and> y0 \<le> y \<and> x0 \<le> x
        \<and> (\<exists>c \<in> set (contours ann).
              z_index (image_z_position c) origin spacing = Some z
              \<and> (case polygon (map (\<lambda>(i, j). i - y0) (to_matrix c))
                              (map (\<lambda>(i, j). j - x0) (to_matrix c))
                              (nat (y1 - y0), nat (x1 - x0)) of
                    None \<Rightarrow> False
                  | Some pix \<Rightarrow> (nat (y - y0), nat (x - x0)) \<in> set pix)))"

text \<open>
  The cell of the boolean mask that the voting loop builds for one annotation; False when
  the mask cannot be built.
\<close>

definition in_annotation_mask ::
  "polygon_fn \<Rightarrow> bbox \<Rightarrow> vec3 \<Rightarrow> vec3 \<Rightarrow> annotation \<Rightarrow> nat \<times> nat \<times> nat \<Rightarrow> bool" where
  "in_annotation_mask polygon bounds origin spacing ann idx =
     (case annotation_mask polygon bounds origin spacing ann of
        None \<Rightarrow> False
      | Some ann_mask \<Rightarrow> cell ann_mask idx)"

text \<open>The number of annotations of a cluster that mark a voxel.\<close>

definition marks_count ::
  "polygon_fn \<Rightarrow> vec3 \<Rightarrow> vec3 \<Rightarrow> bbox \<Rightarrow> annotation list \<Rightarrow> int \<times> int \<times> int \<Rightarrow> nat" where
  "marks_count polygon origin spacing b cluster vox =
     length (filter (\<lambda>ann. marks polygon origin spacing b ann vox) cluster)"

text \<open>
  The comparison that decides a voxel of a consensus mask: \<open>k\<close> votes out of \<open>n\<close>,
  divided in float32, against the threshold cast to float32.
\<close>

definition agreement :: "nat \<Rightarrow> nat \<Rightarrow> real \<Rightarrow> bool" where
  "agreement k n threshold =
     ieee_ge (fl binary32 (real k / real n)) (fl binary32 threshold)"

text \<open>
  \<open>nearest_ties_even q v\<close>: the integer \<open>v\<close> is a nearest integer to \<open>q\<close>, and it is even
  when \<open>q\<close> lies exactly half way between two integers.
\<close>

definition nearest_ties_even :: "real \<Rightarrow> int \<Rightarrow> bool" where
  "nearest_ties_even q v \<longleftrightarrow>
     \<bar>of_int v - q\<bar> \<le> 1 / 2 \<and> (\<bar>of_int v - q\<bar> = 1 / 2 \<longrightarrow> even v)"

text \<open>
  The double nearest to a real number, and the double that float64 arithmetic gives for
  (mm - origin) / spacing when nothing overflows.
\<close>

definition double :: "real \<Rightarrow> real" where
  "double x = round_to 53 (- 1022) x"

definition float64_quotient :: "real \<Rightarrow> real \<Rightarrow> real \<Rightarrow> real" where
  "float64_quotient mm origin spacing = double (double (mm - origin) / spacing)"

text \<open>
  The range of coordinates for which the statements on the coordinate mapping are made:
  a spacing between 2 to the -100 and 2 to the 100 millimetres, a position and an origin
  of at most 2 to the 100 millimetres, and a distance to the origin of at most 2 to the 50
  voxels.
\<close>

definition in_range :: "real \<Rightarrow> real \<Rightarrow> real \<Rightarrow> bool" where
  "in_range mm origin spacing \<longleftrightarrow>
     1 / 2 ^ 100 \<le> spacing \<and> spacing \<le> 2 ^ 100 \<and> \<bar>mm\<bar> \<le> 2 ^ 100 \<and> \<bar>origin\<bar> \<le> 2 ^ 100
     \<and> \<bar>mm - origin\<bar> \<le> 2 ^ 50 * spacing"

section \<open>Example data\<close>

text \<open>
  A rasteriser to run the model on examples: it fills the axis-aligned rectangle spanned
  by the points, clipped to the shape. On a rectangle with integer corners it agrees with
  a polygon fill on every pixel strictly inside.
\<close>

definition box_polygon :: polygon_fn where
  "box_polygon rs cs hw =
     (if rs = [] \<or> cs = [] then None
      else Some [(nat r, nat c).
             r \<leftarrow> [max 0 (Min (set rs)) .. min (int (fst hw) - 1) (Max (set rs))],
             c \<leftarrow> [max 0 (Min (set cs)) .. min (int (snd hw) - 1) (Max (set cs))]])"

text \<open>A mask of shape (1, 1, 2), all True, and two boxes for it that overlap in one voxel.\<close>

definition ex_strip :: "bool ndarray" where
  "ex_strip = \<lparr>shape = (1, 1, 2), cell = (\<lambda>_. True)\<rparr>"

definition ex_pairs :: "(bool ndarray \<times> bbox) list" where
  "ex_pairs = [(ex_strip, ((0, 1), (0, 1), (0, 2))), (ex_strip, ((0, 1), (0, 1), (1, 3)))]"

text \<open>
  A mask of shape (2, 2, 2), all True, in two boxes that are shifted by one voxel on every
  axis and overlap in the voxel (1, 1, 1), and two annotations that have them.
\<close>

definition ex_cube :: "bool ndarray" where
  "ex_cube = \<lparr>shape = (2, 2, 2), cell = (\<lambda>_. True)\<rparr>"

definition ex_cubes :: "(bool ndarray \<times> bbox) list" where
  "ex_cubes = [(ex_cube, ((1, 3), (1, 3), (1, 3))), (ex_cube, ((0, 2), (0, 2), (0, 2)))]"

definition ex_near :: annotation where
  "ex_near = \<lparr>contours = [], mask_bbox = Some (ex_cube, ((1, 3), (1, 3), (1, 3)))\<rparr>"

definition ex_far :: annotation where
  "ex_far = \<lparr>contours = [], mask_bbox = Some (ex_cube, ((0, 2), (0, 2), (0, 2)))\<rparr>"

text \<open>A square contour with the corners (0, 0) and (2, 2) on the slice at \<open>z\<close> millimetres.\<close>

definition ex_square :: "real \<Rightarrow> contour" where
  "ex_square z = \<lparr>image_z_position = z, to_matrix = [(0, 0), (0, 2), (2, 2), (2, 0)]\<rparr>"

text \<open>
  Two annotations of one nodule. In a volume of four slices with origin 0 and spacing 1
  the contour of the first lies on slice 1 and the contour of the second outside.
\<close>

definition ex_inside :: annotation where
  "ex_inside =
     \<lparr>contours = [ex_square 1], mask_bbox = Some (ex_strip, ((0, 1), (0, 1), (0, 2)))\<rparr>"

definition ex_outside :: annotation where
  "ex_outside =
     \<lparr>contours = [ex_square 9], mask_bbox = Some (ex_strip, ((0, 1), (0, 1), (1, 3)))\<rparr>"

text \<open>
  An annotation with one contour on slice 1 and one outside the volume, an annotation
  with the same contour twice on slice 1, an annotation with a contour on slice 1 and one
  on slice 2, and two annotations whose contour is on slice 1 with all its rows beyond the
  four rows of the volume: rows 6 to 8, and rows 4 to 6.
\<close>

definition ex_partial :: annotation where
  "ex_partial = \<lparr>contours = [ex_square 9, ex_square 1], mask_bbox = None\<rparr>"

definition ex_twice :: annotation where
  "ex_twice = \<lparr>contours = [ex_square 1, ex_square 1], mask_bbox = None\<rparr>"

definition ex_tall :: annotation where
  "ex_tall = \<lparr>contours = [ex_square 1, ex_square 2], mask_bbox = None\<rparr>"

definition ex_beyond :: annotation where
  "ex_beyond =
     \<lparr>contours = [\<lparr>image_z_position = 1, to_matrix = [(6, 0), (6, 2), (8, 2), (8, 0)]\<rparr>],
      mask_bbox = None\<rparr>"

definition ex_edge :: annotation where
  "ex_edge =
     \<lparr>contours = [\<lparr>image_z_position = 1, to_matrix = [(4, 0), (4, 2), (6, 2), (6, 0)]\<rparr>],
      mask_bbox = None\<rparr>"

text \<open>
  A scan with these annotations, the first two grouped into one nodule, and a loader
  that finds it.
\<close>

definition ex_scan :: scan where
  "ex_scan = \<lparr>annotations = [ex_inside, ex_outside, ex_partial, ex_beyond],
              cluster_annotations = [[ex_inside, ex_outside]]\<rparr>"

definition ex_loader :: loader where
  "ex_loader = \<lparr>query_scan = (\<lambda>uid. if uid = ''1.3.6.1'' then Some ex_scan else None),
                scan_cache = (\<lambda>uid. None)\<rparr>"

text \<open>
  A second scan, already in the cache of its loader, with a nodule one of whose
  annotations has no extractable mask.
\<close>

definition ex_scan2 :: scan where
  "ex_scan2 = \<lparr>annotations = [ex_inside, ex_partial],
               cluster_annotations = [[ex_inside, ex_partial], [ex_near, ex_far]]\<rparr>"

definition ex_loader2 :: loader where
  "ex_loader2 = \<lparr>query_scan = (\<lambda>uid. None),
                 scan_cache = (\<lambda>uid. if uid = ''1.3.6.2'' then Some ex_scan2 else None)\<rparr>"

section \<open>Properties of the rounding\<close>

lemma rint_cases:
  "rint x = \<lfloor>x\<rfloor> \<or> rint x = \<lfloor>x\<rfloor> + 1"
  by (simp add: rint_def Let_def)

lemma rint_of_int [simp]: "rint (of_int n) = n"
  by (simp add: rint_def)

lemma rint_lower: "x - 1 / 2 \<le> of_int (rint x)"
  unfolding rint_def Let_def by (auto; linarith)

lemma rint_upper: "of_int (rint x) \<le> x + 1 / 2"
  unfolding rint_def Let_def by (auto; linarith)

lemma rint_nearest: "\<bar>of_int (rint x) - x\<bar> \<le> 1 / 2"
  using rint_lower [of x] rint_upper [of x] by linarith

lemma rint_le_int: "x \<le> of_int n \<Longrightarrow> rint x \<le> n"
  unfolding rint_def Let_def by (auto simp: floor_le_iff; linarith)

lemma rint_ge_int: "of_int n \<le> x \<Longrightarrow> n \<le> rint x"
  unfolding rint_def Let_def by (auto simp: le_floor_iff; linarith)

lemma rint_pos: "1 / 2 < x \<Longrightarrow> 1 \<le> rint x"
proof -
  assume "1 / 2 < x"
  with rint_lower [of x] have "(0::real) < of_int (rint x)" by linarith
  then show ?thesis by simp
qed

lemma pow2_pos [simp]: "0 < (2::real) powi k"
  by (simp add: power_int_def)

lemma pow2_add: "(2::real) powi (a + b) = 2 powi a * 2 powi b"
  by (simp add: power_int_add)

lemma pow2_mono: "a \<le> b \<Longrightarrow> (2::real) powi a \<le> 2 powi b"
  by (rule power_int_increasing) simp_all

lemma pow2_strict_mono: "a < b \<Longrightarrow> (2::real) powi a < 2 powi b"
  by (rule power_int_strict_increasing) simp_all

lemma pow2_le_imp_le: "(2::real) powi a \<le> 2 powi b \<Longrightarrow> a \<le> b"
  using pow2_strict_mono [of b a] by (cases "a \<le> b") auto

lemma pow2_lt_imp_lt: "(2::real) powi a < 2 powi b \<Longrightarrow> a < b"
  using pow2_mono [of b a] by (cases "a < b") auto

lemma pow2_nonneg_int: "0 \<le> k \<Longrightarrow> (2::real) powi k = of_int (2 ^ nat k)"
  by (simp add: power_int_def)

lemma expo_bounds:
  assumes "x \<noteq> 0"
  shows "2 powi (expo x) \<le> \<bar>x\<bar>" and "\<bar>x\<bar> < 2 powi (expo x + 1)"
proof -
  have "2 powi (expo x) \<le> \<bar>x\<bar> \<and> \<bar>x\<bar> < 2 powi (expo x + 1)"
  proof (cases "1 \<le> \<bar>x\<bar>")
    case True
    define n where "n = \<lfloor>\<bar>x\<bar>\<rfloor>"
    define b where "b = bitlen n"
    from True have n: "0 < n" by (simp add: n_def)
    from bitlen_bounds [OF n] have bb: "2 ^ nat (b - 1) \<le> n" "n < 2 ^ nat b"
      by (simp_all add: b_def)
    from n have b1: "1 \<le> b" unfolding b_def
      using bitlen_eq_zero_iff [of n] bitlen_nonneg [of n] by linarith
    have e: "expo x = b - 1" using True by (simp add: expo_def n_def b_def)
    have "(2::real) powi (b - 1) = of_int (2 ^ nat (b - 1))" using b1 by (simp add: pow2_nonneg_int)
    also have "\<dots> \<le> of_int n" using bb(1) by linarith
    also have "\<dots> \<le> \<bar>x\<bar>" by (simp add: n_def)
    finally have lo: "2 powi (b - 1) \<le> \<bar>x\<bar>" .
    have "\<bar>x\<bar> < of_int (n + 1)" by (simp add: n_def)
    also have "\<dots> \<le> of_int (2 ^ nat b)" using bb(2) by (intro of_int_le_iff [THEN iffD2]) linarith
    also have "\<dots> = (2::real) powi b" using b1 by (simp add: pow2_nonneg_int)
    finally have hi: "\<bar>x\<bar> < 2 powi b" .
    from lo hi show ?thesis by (simp add: e)
  next
    case False
    define y where "y = 1 / \<bar>x\<bar>"
    from False assms have y1: "1 < y" by (simp add: y_def)
    have xy: "\<bar>x\<bar> = 1 / y" by (simp add: y_def)
    define n where "n = \<lfloor>y\<rfloor>"
    define b where "b = bitlen n"
    from y1 have n: "0 < n" by (simp add: n_def)
    from bitlen_bounds [OF n] have bb: "2 ^ nat (b - 1) \<le> n" "n < 2 ^ nat b"
      by (simp_all add: b_def)
    from n have b1: "1 \<le> b" unfolding b_def
      using bitlen_eq_zero_iff [of n] bitlen_nonneg [of n] by linarith
    have "(2::real) powi (b - 1) = of_int (2 ^ nat (b - 1))" using b1 by (simp add: pow2_nonneg_int)
    also have "\<dots> \<le> of_int n" using bb(1) by linarith
    also have "\<dots> \<le> y" by (simp add: n_def)
    finally have ylo: "2 powi (b - 1) \<le> y" .
    have "y < of_int (n + 1)" by (simp add: n_def)
    also have "\<dots> \<le> of_int (2 ^ nat b)" using bb(2) by (intro of_int_le_iff [THEN iffD2]) linarith
    also have "\<dots> = (2::real) powi b" using b1 by (simp add: pow2_nonneg_int)
    finally have yhi: "y < 2 powi b" .
    have xlo: "2 powi (- b) < \<bar>x\<bar>"
      using yhi y1 by (simp add: xy power_int_minus field_simps)
    have xhi: "\<bar>x\<bar> \<le> 2 powi (1 - b)"
    proof -
      have "(2::real) powi (1 - b) = 1 / 2 powi (b - 1)"
        using power_int_minus_divide [of "2::real" "b - 1"] by simp
      also have "\<dots> \<ge> 1 / y" using ylo y1 by (intro divide_left_mono) simp_all
      finally show ?thesis by (simp add: xy)
    qed
    show ?thesis
    proof (cases "\<bar>x\<bar> * 2 powi (b - 1) = 1")
      case True
      then have e: "expo x = 1 - b" using False by (simp add: expo_def y_def n_def b_def)
      from True have "\<bar>x\<bar> = 1 / 2 powi (b - 1)" by (simp add: field_simps)
      also have "\<dots> = (2::real) powi (1 - b)"
        using power_int_minus_divide [of "2::real" "b - 1"] by simp
      finally have eq: "\<bar>x\<bar> = 2 powi (1 - b)" .
      have "(2::real) powi (1 - b) < (2::real) powi (1 - b + 1)" by (intro pow2_strict_mono) simp
      with eq show ?thesis by (simp add: e)
    next
      case ne: False
      then have e: "expo x = - b" using False by (simp add: expo_def y_def n_def b_def Let_def)
      have "\<bar>x\<bar> \<noteq> 2 powi (1 - b)"
      proof
        assume "\<bar>x\<bar> = 2 powi (1 - b)"
        then have "\<bar>x\<bar> * 2 powi (b - 1) = 2 powi (1 - b + (b - 1))"
          by (simp only: pow2_add)
        with ne show False by simp
      qed
      with xhi have "\<bar>x\<bar> < 2 powi (1 - b)" by simp
      with xlo show ?thesis by (simp add: e add.commute)
    qed
  qed
  then show "2 powi (expo x) \<le> \<bar>x\<bar>" and "\<bar>x\<bar> < 2 powi (expo x + 1)" by simp_all
qed


lemma expo_unique:
  assumes "2 powi e \<le> \<bar>x\<bar>" and "\<bar>x\<bar> < 2 powi (e + 1)"
  shows "expo x = e"
proof -
  have "0 < \<bar>x\<bar>" using assms(1) pow2_pos [of e] by linarith
  then have x0: "x \<noteq> 0" by simp
  note b = expo_bounds [OF x0]
  from assms(1) b(2) have "(2::real) powi e < 2 powi (expo x + 1)" by linarith
  then have 1: "e < expo x + 1" by (rule pow2_lt_imp_lt)
  from b(1) assms(2) have "(2::real) powi (expo x) < 2 powi (e + 1)" by linarith
  then have 2: "expo x < e + 1" by (rule pow2_lt_imp_lt)
  from 1 2 show ?thesis by simp
qed

lemma expo_le:
  assumes "x \<noteq> 0" and "\<bar>x\<bar> \<le> 2 powi j"
  shows "expo x \<le> j"
proof -
  from expo_bounds(1) [OF assms(1)] assms(2) have "(2::real) powi (expo x) \<le> 2 powi j"
    by linarith
  then show ?thesis by (rule pow2_le_imp_le)
qed

lemma expo_lt:
  assumes "x \<noteq> 0" and "\<bar>x\<bar> < 2 powi j"
  shows "expo x < j"
proof -
  from expo_bounds(1) [OF assms(1)] assms(2) have "(2::real) powi (expo x) < 2 powi j"
    by linarith
  then show ?thesis by (rule pow2_lt_imp_lt)
qed

lemma expo_ge:
  assumes "2 powi j \<le> \<bar>x\<bar>"
  shows "j \<le> expo x"
proof -
  have "0 < \<bar>x\<bar>" using assms pow2_pos [of j] by linarith
  then have x0: "x \<noteq> 0" by simp
  from expo_bounds(2) [OF x0] assms have "(2::real) powi j < 2 powi (expo x + 1)"
    by linarith
  then have "j < expo x + 1" by (rule pow2_lt_imp_lt)
  then show ?thesis by simp
qed

lemma pow2_ratio:
  assumes "k \<le> j"
  shows "(2::real) powi j = of_int (2 ^ nat (j - k)) * 2 powi k"
proof -
  have "(2::real) powi j = 2 powi ((j - k) + k)" by simp
  also have "\<dots> = 2 powi (j - k) * 2 powi k" by (rule pow2_add)
  also have "(2::real) powi (j - k) = of_int (2 ^ nat (j - k))"
    using assms by (intro pow2_nonneg_int) simp
  finally show ?thesis .
qed

lemma round_to_abs_le:
  assumes le: "\<bar>x\<bar> \<le> 2 powi j" and j: "emin - int p + 1 \<le> j" and p: "1 \<le> p"
  shows "\<bar>round_to p emin x\<bar> \<le> 2 powi j"
proof (cases "x = 0")
  case True
  then show ?thesis by (simp add: round_to_def)
next
  case False
  define k where "k = max (expo x) emin - (int p - 1)"
  define ulp :: real where "ulp = 2 powi k"
  define N :: int where "N = 2 ^ nat (j - k)"
  have up: "0 < ulp" by (simp add: ulp_def)
  from expo_le [OF False le] j p have kj: "k \<le> j" by (simp add: k_def)
  have pj: "(2::real) powi j = of_int N * ulp"
    unfolding N_def ulp_def by (rule pow2_ratio [OF kj])
  have r: "round_to p emin x = ulp * of_int (rint (x / ulp))"
    using False by (simp add: round_to_def Let_def k_def ulp_def)
  from le have "x \<le> of_int N * ulp" "- (of_int N * ulp) \<le> x" by (simp_all add: pj)
  then have "x / ulp \<le> of_int N" "of_int (- N) \<le> x / ulp"
    using up by (simp_all add: field_simps)
  then have "rint (x / ulp) \<le> N" "- N \<le> rint (x / ulp)"
    by (auto intro: rint_le_int rint_ge_int)
  then have "\<bar>real_of_int (rint (x / ulp))\<bar> \<le> of_int N" by linarith
  then have "ulp * \<bar>real_of_int (rint (x / ulp))\<bar> \<le> ulp * of_int N"
    using up by (intro mult_left_mono) simp_all
  then show ?thesis using up by (simp add: r pj abs_mult mult.commute)
qed

lemma round_to_nonneg: "0 \<le> x \<Longrightarrow> 0 \<le> round_to p emin x"
proof -
  assume x: "0 \<le> x"
  have "0 \<le> x / 2 powi k" for k using x by simp
  then have "0 \<le> rint (x / 2 powi k)" for k
    using rint_ge_int [of 0 "x / 2 powi k"] by simp
  then show ?thesis by (simp add: round_to_def Let_def)
qed

lemma round_to_nonpos: "x \<le> 0 \<Longrightarrow> round_to p emin x \<le> 0"
proof -
  assume x: "x \<le> 0"
  have "x / 2 powi k \<le> 0" for k using x by (simp add: divide_nonpos_pos)
  then have "rint (x / 2 powi k) \<le> 0" for k
    using rint_le_int [of "x / 2 powi k" 0] by simp
  then show ?thesis by (simp add: round_to_def Let_def mult_nonneg_nonpos)
qed

lemma round_to_ge:
  assumes ge: "2 powi j \<le> x" and j: "emin - int p + 1 \<le> j" and p: "1 \<le> p"
  shows "2 powi j \<le> round_to p emin x"
proof -
  have "(0::real) < 2 powi j" by simp
  with ge have x0: "0 < x" by linarith
  define e where "e = expo x"
  define k where "k = max e emin - (int p - 1)"
  define ulp :: real where "ulp = 2 powi k"
  define N :: int where "N = 2 ^ nat (e - k)"
  have up: "0 < ulp" by (simp add: ulp_def)
  from ge x0 have je: "j \<le> e" unfolding e_def by (intro expo_ge) simp
  with j p have ke: "k \<le> e" by (simp add: k_def)
  have pe: "(2::real) powi e = of_int N * ulp"
    unfolding N_def ulp_def by (rule pow2_ratio [OF ke])
  have r: "round_to p emin x = ulp * of_int (rint (x / ulp))"
    using x0 by (simp add: round_to_def Let_def k_def ulp_def e_def)
  from expo_bounds(1) [of x] x0 have "of_int N * ulp \<le> x" by (simp add: pe [symmetric] e_def)
  then have "of_int N \<le> x / ulp" using up by (simp add: field_simps)
  then have "N \<le> rint (x / ulp)" by (rule rint_ge_int)
  then have "real_of_int N \<le> of_int (rint (x / ulp))" by simp
  then have "ulp * of_int N \<le> ulp * of_int (rint (x / ulp))"
    using up by (intro mult_left_mono) simp_all
  then have "2 powi e \<le> round_to p emin x" by (simp add: r pe mult.commute)
  moreover have "(2::real) powi j \<le> 2 powi e" using je by (rule pow2_mono)
  ultimately show ?thesis by linarith
qed

lemma round_to_error:
  "\<bar>round_to p emin x - x\<bar> \<le> 2 powi (max (expo x) emin - int p)"
proof (cases "x = 0")
  case True
  then show ?thesis by (simp add: round_to_def)
next
  case False
  define k where "k = max (expo x) emin - (int p - 1)"
  define ulp :: real where "ulp = 2 powi k"
  have up: "0 < ulp" by (simp add: ulp_def)
  have r: "round_to p emin x = ulp * of_int (rint (x / ulp))"
    using False by (simp add: round_to_def Let_def k_def ulp_def)
  have "round_to p emin x - x = ulp * (of_int (rint (x / ulp)) - x / ulp)"
    using up by (simp add: r algebra_simps)
  then have "\<bar>round_to p emin x - x\<bar> = ulp * \<bar>of_int (rint (x / ulp)) - x / ulp\<bar>"
    using up by (simp add: abs_mult)
  also have "\<dots> \<le> ulp * (1 / 2)"
    using up rint_nearest [of "x / ulp"] by (intro mult_left_mono) simp_all
  also have "\<dots> = 2 powi (k - 1)"
    unfolding ulp_def using power_int_add [of "2::real" k "- 1"] by (simp add: power_int_minus)
  also have "k - 1 = max (expo x) emin - int p" by (simp add: k_def)
  finally show ?thesis .
qed

lemma round_to_rel:
  "\<bar>round_to p emin x - x\<bar> \<le> \<bar>x\<bar> / 2 ^ p + 2 powi (emin - int p)"
proof (cases "x = 0")
  case True
  then show ?thesis by (simp add: round_to_def)
next
  case False
  show ?thesis
  proof (cases "emin \<le> expo x")
    case True
    then have m: "max (expo x) emin = expo x" by simp
    have "(2::real) powi (expo x - int p) = 2 powi (expo x) * 2 powi (- int p)"
      using pow2_add [of "expo x" "- int p"] by simp
    also have "\<dots> \<le> \<bar>x\<bar> * 2 powi (- int p)"
      using expo_bounds(1) [OF False] by (intro mult_right_mono) simp_all
    also have "\<dots> = \<bar>x\<bar> / 2 ^ p"
      by (simp add: power_int_minus field_simps)
    finally have "(2::real) powi (expo x - int p) \<le> \<bar>x\<bar> / 2 ^ p" .
    moreover have "(0::real) \<le> 2 powi (emin - int p)" by simp
    ultimately show ?thesis using round_to_error [of p emin x] unfolding m by linarith
  next
    case False
    then have m: "max (expo x) emin = emin" by simp
    have "0 \<le> \<bar>x\<bar> / 2 ^ p" by simp
    then show ?thesis using round_to_error [of p emin x] unfolding m by linarith
  qed
qed

lemma round_to_exact:
  assumes x: "x = of_int n * 2 powi k0" and k: "max (expo x) emin - (int p - 1) \<le> k0"
  shows "round_to p emin x = x"
proof (cases "x = 0")
  case True
  then show ?thesis by (simp add: round_to_def)
next
  case False
  define k where "k = max (expo x) emin - (int p - 1)"
  define ulp :: real where "ulp = 2 powi k"
  have up: "0 < ulp" by (simp add: ulp_def)
  from k have kk: "k \<le> k0" by (simp add: k_def)
  have "x = of_int n * (of_int (2 ^ nat (k0 - k)) * ulp)"
    unfolding ulp_def using pow2_ratio [OF kk] x by simp
  then have "x / ulp = of_int (n * 2 ^ nat (k0 - k))" using up by simp
  then have "rint (x / ulp) = n * 2 ^ nat (k0 - k)" by (simp only: rint_of_int)
  then have "ulp * of_int (rint (x / ulp)) = x"
    using \<open>x = of_int n * (of_int (2 ^ nat (k0 - k)) * ulp)\<close> by simp
  then show ?thesis using False by (simp add: round_to_def Let_def k_def ulp_def)
qed

lemma round_to_int:
  assumes "\<bar>n\<bar> < 2 ^ p" and "emin - int p + 1 \<le> 0" and "1 \<le> p"
  shows "round_to p emin (of_int n) = of_int n"
proof (cases "n = 0")
  case True
  then show ?thesis by (simp add: round_to_def)
next
  case False
  then have x0: "real_of_int n \<noteq> 0" by simp
  have "\<bar>real_of_int n\<bar> < 2 powi (int p)"
    using assms(1) by (simp add: power_int_def) (metis of_int_abs of_int_less_numeral_power_cancel_iff)
  from expo_lt [OF x0 this] assms(2) have "max (expo (real_of_int n)) emin - (int p - 1) \<le> 0"
    by simp
  then show ?thesis by (intro round_to_exact [where n = n and ?k0.0 = 0]) simp_all
qed

lemma round_to_pos:
  assumes "2 powi (emin - int p) < x" and "1 \<le> p"
  shows "0 < round_to p emin x"
proof -
  have "(0::real) < 2 powi (emin - int p)" by simp
  with assms(1) have x0: "0 < x" by linarith
  show ?thesis
  proof (cases "emin \<le> expo x")
    case True
    have "2 powi (expo x) \<le> x" using expo_bounds(1) [of x] x0 by simp
    from round_to_ge [OF this _ assms(2), of emin] True assms(2)
    have "2 powi (expo x) \<le> round_to p emin x" by simp
    moreover have "(0::real) < 2 powi (expo x)" by simp
    ultimately show ?thesis by linarith
  next
    case False
    define ulp :: real where "ulp = 2 powi (emin - (int p - 1))"
    have up: "0 < ulp" by (simp add: ulp_def)
    from False have m: "max (expo x) emin = emin" by simp
    have r: "round_to p emin x = ulp * of_int (rint (x / ulp))"
      using x0 by (simp add: round_to_def Let_def m ulp_def)
    have "emin - (int p - 1) = 1 + (emin - int p)" by simp
    then have "ulp = 2 powi (1 + (emin - int p))" by (simp only: ulp_def)
    also have "\<dots> = 2 * 2 powi (emin - int p)"
      using pow2_add [of 1 "emin - int p"] by simp
    finally have "ulp = 2 * 2 powi (emin - int p)" .
    with assms(1) have "ulp * (1 / 2) < x" by simp
    then have "1 / 2 < x / ulp" using up by (simp add: field_simps)
    then have "1 \<le> rint (x / ulp)" by (rule rint_pos)
    then have "0 < real_of_int (rint (x / ulp))" by simp
    with up show ?thesis by (simp add: r)
  qed
qed

lemma rint_tie_even: "x - of_int \<lfloor>x\<rfloor> = 1 / 2 \<Longrightarrow> even (rint x)"
  by (simp add: rint_def Let_def)

lemma rint_no_tie:
  assumes "x - of_int \<lfloor>x\<rfloor> \<noteq> 1 / 2"
  shows "rint x = round_half_away x"
proof -
  have fl: "of_int \<lfloor>x\<rfloor> \<le> x" "x < of_int \<lfloor>x\<rfloor> + 1" by linarith+
  show ?thesis
  proof (cases "x - of_int \<lfloor>x\<rfloor> < 1 / 2")
    case True
    then have a: "\<lfloor>x + 1 / 2\<rfloor> = \<lfloor>x\<rfloor>" using fl by linarith
    have b: "\<lceil>x - 1 / 2\<rceil> = \<lfloor>x\<rfloor>" using True fl by linarith
    show ?thesis using True a b by (simp add: rint_def round_half_away_def Let_def)
  next
    case False
    with assms have gt: "1 / 2 < x - of_int \<lfloor>x\<rfloor>" by linarith
    then have a: "\<lfloor>x + 1 / 2\<rfloor> = \<lfloor>x\<rfloor> + 1" using fl by linarith
    have b: "\<lceil>x - 1 / 2\<rceil> = \<lfloor>x\<rfloor> + 1" using gt fl by linarith
    show ?thesis using False gt a b by (simp add: rint_def round_half_away_def Let_def)
  qed
qed

lemma rint_half_even: "\<bar>of_int (rint x) - x\<bar> = 1 / 2 \<Longrightarrow> even (rint x)"
proof -
  assume h: "\<bar>of_int (rint x) - x\<bar> = 1 / 2"
  have fl: "of_int \<lfloor>x\<rfloor> \<le> x" "x < of_int \<lfloor>x\<rfloor> + 1" by linarith+
  have "x - of_int \<lfloor>x\<rfloor> = 1 / 2"
  proof (rule ccontr)
    assume n: "x - of_int \<lfloor>x\<rfloor> \<noteq> 1 / 2"
    show False
    proof (cases "x - of_int \<lfloor>x\<rfloor> < 1 / 2")
      case True
      then have "rint x = \<lfloor>x\<rfloor>" by (simp add: rint_def Let_def)
      with h True fl show False by linarith
    next
      case False
      with n have gt: "1 / 2 < x - of_int \<lfloor>x\<rfloor>" by linarith
      then have "rint x = \<lfloor>x\<rfloor> + 1" by (simp add: rint_def Let_def)
      with h gt fl show False by simp
    qed
  qed
  then show ?thesis by (rule rint_tie_even)
qed

lemma rint_nearest_ties_even: "nearest_ties_even q (rint q)"
  unfolding nearest_ties_even_def using rint_nearest [of q] rint_half_even [of q] by blast


lemma fl_Finite:
  assumes "\<bar>round_to p emin x\<bar> < 2 powi (emax + 1)"
  shows "fl (p, emin, emax) x = Finite (round_to p emin x)"
  using assms by (simp add: fl_def Let_def)

lemma fl_cases:
  "fl (p, emin, emax) x = Finite (round_to p emin x) \<and> \<bar>round_to p emin x\<bar> < 2 powi (emax + 1)
   \<or> fl (p, emin, emax) x = PlusInf \<and> 0 < round_to p emin x
   \<or> fl (p, emin, emax) x = MinusInf \<and> round_to p emin x < 0"
proof -
  have "2 powi (emax + 1) \<le> - r \<Longrightarrow> r < 0" for r :: real
    using pow2_pos [of "emax + 1"] by linarith
  then show ?thesis by (auto simp: fl_def Let_def)
qed

lemma fl_bounded:
  assumes "\<bar>x\<bar> \<le> 2 powi j" and "emin - int p + 1 \<le> j" and "1 \<le> p" and "j \<le> emax"
  shows "fl (p, emin, emax) x = Finite (round_to p emin x)"
proof -
  from round_to_abs_le [OF assms(1-3)] have "\<bar>round_to p emin x\<bar> \<le> 2 powi j" .
  also have "(2::real) powi j < 2 powi (emax + 1)"
    using assms(4) by (intro pow2_strict_mono) simp
  finally show ?thesis by (rule fl_Finite)
qed

section \<open>Evaluation of the rounding\<close>

lemma two_powi_code [code]:
  "two_powi k =
     (if k = 0 then 1
      else if k < 0 then 1 / two_powi (- k)
      else let h = two_powi (k div 2) in if even k then h * h else 2 * h * h)"
proof -
  have e: "(2::real) powi k = 2 powi (k div 2) * 2 powi (k div 2)" if "even k"
  proof -
    from that have "k = k div 2 + k div 2" by auto
    then have "(2::real) powi k = 2 powi (k div 2 + k div 2)" by simp
    then show ?thesis by (simp only: power_int_add [of "2::real", simplified])
  qed
  have o: "(2::real) powi k = 2 * 2 powi (k div 2) * 2 powi (k div 2)" if "odd k"
  proof -
    from that have "k = 1 + (k div 2 + k div 2)" by presburger
    then have "(2::real) powi k = 2 powi (1 + (k div 2 + k div 2))" by simp
    also have "\<dots> = 2 powi 1 * (2 powi (k div 2) * 2 powi (k div 2))"
      by (simp only: power_int_add [of "2::real", simplified])
    finally show ?thesis by simp
  qed
  show ?thesis
    using e o by (auto simp: two_powi_def Let_def power_int_minus field_simps)
qed

lemma expo_code [code]:
  "expo x =
     (if 1 \<le> \<bar>x\<bar> then bitlen \<lfloor>\<bar>x\<bar>\<rfloor> - 1
      else let k = bitlen \<lfloor>1 / \<bar>x\<bar>\<rfloor>
           in if \<bar>x\<bar> * two_powi (k - 1) = 1 then 1 - k else - k)"
  by (simp add: expo_def two_powi_def)

lemma round_to_code [code]:
  "round_to p emin x =
     (if x = 0 then 0
      else let ulp = two_powi (max (expo x) emin - (int p - 1))
           in ulp * of_int (rint (x / ulp)))"
  by (simp add: round_to_def two_powi_def)

lemma fl_code [code]:
  "fl f x =
     (case f of (p, emin, emax) \<Rightarrow>
        let y = round_to p emin x
        in if two_powi (emax + 1) \<le> \<bar>y\<bar> then (if 0 < y then PlusInf else MinusInf)
           else Finite y)"
  by (simp add: fl_def two_powi_def)

section \<open>Counting in float32\<close>


lemma float32_top: "round_to 24 (- 126) 16777216 = 16777216"
  by code_simp

lemma float32_over: "round_to 24 (- 126) 16777217 = 16777216"
  by code_simp

lemma float32_nat:
  assumes "k \<le> 2 ^ 24"
  shows "round_to 24 (- 126) (real k) = real k"
proof (cases "k = 2 ^ 24")
  case True
  then show ?thesis using float32_top by simp
next
  case False
  with assms have "\<bar>int k\<bar> < 2 ^ 24" by simp
  from round_to_int [OF this, of "- 126"] show ?thesis by simp
qed

lemma float32_succ:
  assumes "k \<le> 2 ^ 24"
  shows "round_to 24 (- 126) (real k + 1) = real (min (k + 1) (2 ^ 24))"
proof (cases "k = 2 ^ 24")
  case True
  then show ?thesis using float32_over by simp
next
  case False
  with assms have k: "k + 1 \<le> 2 ^ 24" by simp
  have "real k + 1 = real (k + 1)" by simp
  with float32_nat [OF k] k show ?thesis by (simp add: min_def add.commute)
qed

section \<open>Properties of the fusion and of the vote\<close>


lemma slice_len_fits: "o' + s \<le> L \<Longrightarrow> slice_len L o' s = s"
  by (simp add: slice_len_def min_def)

lemma add_at_fits:
  assumes "fits (shape v) offs (shape m)"
  shows "add_at v offs m =
    Some (v\<lparr>cell := (\<lambda>idx. if covers m offs idx then round_to 24 (- 126) (cell v idx + 1)
                             else cell v idx)\<rparr>)"
proof -
  obtain L0 L1 L2 where L: "shape v = (L0, L1, L2)" by (cases "shape v") auto
  obtain i0 i1 i2 where i: "offs = (i0, i1, i2)" by (cases offs) auto
  obtain s0 s1 s2 where s: "shape m = (s0, s1, s2)" by (cases "shape m") auto
  from assms have "nat i0 + s0 \<le> L0" "nat i1 + s1 \<le> L1" "nat i2 + s2 \<le> L2"
    by (auto simp: fits_def L i s)
  then show ?thesis
    by (simp add: add_at_def L i s slice_len_fits)
qed

lemma add_at_shape: "add_at v offs m = Some v' \<Longrightarrow> shape v' = shape v"
  by (auto simp: add_at_def Let_def split: prod.splits if_splits)

lemma add_votes_shape: "add_votes v mins mbs = Some v' \<Longrightarrow> shape v' = shape v"
proof (induction mbs arbitrary: v)
  case Nil
  then show ?case by simp
next
  case (Cons mb mbs)
  obtain m b where mb: "mb = (m, b)" by (cases mb)
  from Cons.prems obtain w where w: "add_at v (offsets b mins) m = Some w"
    and r: "add_votes w mins mbs = Some v'"
    by (auto simp: mb split: option.splits)
  from Cons.IH [OF r] add_at_shape [OF w] show ?case by simp
qed

lemma saturated_step:
  "real (min (min c (2 ^ 24) + 1) (2 ^ 24)) = real (min (c + 1) (2 ^ 24))"
  by (simp add: min_def)

lemma add_votes_fits:
  assumes "\<forall>(m, b) \<in> set mbs. fits (shape v) (offsets b mins) (shape m)"
    and "\<forall>idx. cell v idx = real (min (c idx) (2 ^ 24))"
  shows "\<exists>v'. add_votes v mins mbs = Some v' \<and> shape v' = shape v
     \<and> (\<forall>idx. cell v' idx =
          real (min (c idx + length (filter (\<lambda>(m, b). covers m (offsets b mins) idx) mbs))
                    (2 ^ 24)))"
  using assms
proof (induction mbs arbitrary: v c)
  case Nil
  then show ?case by simp
next
  case (Cons mb mbs)
  obtain m b where mb: "mb = (m, b)" by (cases mb)
  define w where "w = v\<lparr>cell := (\<lambda>idx. if covers m (offsets b mins) idx
      then round_to 24 (- 126) (cell v idx + 1) else cell v idx)\<rparr>"
  define c' where "c' = (\<lambda>idx. c idx + (if covers m (offsets b mins) idx then 1 else 0))"
  from Cons.prems(1) have f: "fits (shape v) (offsets b mins) (shape m)" by (simp add: mb)
  have a: "add_at v (offsets b mins) m = Some w"
    unfolding w_def by (rule add_at_fits [OF f])
  have sw: "shape w = shape v" by (simp add: w_def)
  from Cons.prems(1) have fw: "\<forall>(m, b) \<in> set mbs. fits (shape w) (offsets b mins) (shape m)"
    by (simp add: sw)
  have cw: "\<forall>idx. cell w idx = real (min (c' idx) (2 ^ 24))"
  proof
    fix idx
    from Cons.prems(2) have cv: "cell v idx = real (min (c idx) (2 ^ 24))" by (rule spec)
    show "cell w idx = real (min (c' idx) (2 ^ 24))"
    proof (cases "covers m (offsets b mins) idx")
      case True
      then have "cell w idx = round_to 24 (- 126) (cell v idx + 1)" by (simp add: w_def)
      also have "\<dots> = round_to 24 (- 126) (real (min (c idx) (2 ^ 24)) + 1)"
        by (simp only: cv)
      also have "\<dots> = real (min (min (c idx) (2 ^ 24) + 1) (2 ^ 24))"
        by (rule float32_succ) simp
      also have "\<dots> = real (min (c idx + 1) (2 ^ 24))" by (rule saturated_step)
      also have "c idx + 1 = c' idx" using True by (simp add: c'_def)
      finally show ?thesis .
    next
      case False
      then have "cell w idx = cell v idx" by (simp add: w_def)
      moreover from False have "c' idx = c idx" by (simp add: c'_def)
      ultimately show ?thesis using cv by (simp only:)
    qed
  qed
  from Cons.IH [OF fw cw] obtain v' where v': "add_votes w mins mbs = Some v'"
    "shape v' = shape w"
    "\<forall>idx. cell v' idx = real (min (c' idx
        + length (filter (\<lambda>(m, b). covers m (offsets b mins) idx) mbs)) (2 ^ 24))"
    by blast
  have "\<forall>idx. cell v' idx = real (min (c idx
        + length (filter (\<lambda>(m, b). covers m (offsets b mins) idx) (mb # mbs))) (2 ^ 24))"
    using v'(3) by (simp add: mb c'_def)
  with v' a sw show ?case by (simp add: mb)
qed

lemma min_starts_le:
  assumes "(m, b) \<in> set mbs" and "min_starts mbs = (a0, a1, a2)"
    and "b = ((z0, z1), (y0, y1), (x0, x1))"
  shows "a0 \<le> z0 \<and> a1 \<le> y0 \<and> a2 \<le> x0"
proof -
  have "z0 \<in> set (map (\<lambda>(m, b). fst (starts b)) mbs)"
    "y0 \<in> set (map (\<lambda>(m, b). fst (snd (starts b))) mbs)"
    "x0 \<in> set (map (\<lambda>(m, b). snd (snd (starts b))) mbs)"
    using assms(1,3) by (force simp: starts_def)+
  then show ?thesis
    using assms(2) unfolding min_starts_def by (auto intro!: Min_le)
qed

lemma max_ends_ge:
  assumes "(m, b) \<in> set mbs" and "max_ends mbs = (e0, e1, e2)"
    and "b = ((z0, z1), (y0, y1), (x0, x1))"
  shows "z1 \<le> e0 \<and> y1 \<le> e1 \<and> x1 \<le> e2"
proof -
  have "z1 \<in> set (map (\<lambda>(m, b). fst (stops b)) mbs)"
    "y1 \<in> set (map (\<lambda>(m, b). fst (snd (stops b))) mbs)"
    "x1 \<in> set (map (\<lambda>(m, b). snd (snd (stops b))) mbs)"
    using assms(1,3) by (force simp: stops_def)+
  then show ?thesis
    using assms(2) unfolding max_ends_def by (auto intro!: Max_ge)
qed

lemma fused_fits:
  assumes mem: "(m, b) \<in> set mbs" and sm: "shape_matches m b"
    and mins: "min_starts mbs = (a0, a1, a2)" and maxs: "max_ends mbs = (e0, e1, e2)"
  shows "0 \<le> e0 - a0 \<and> 0 \<le> e1 - a1 \<and> 0 \<le> e2 - a2
    \<and> fits (nat (e0 - a0), nat (e1 - a1), nat (e2 - a2)) (offsets b (a0, a1, a2)) (shape m)"
proof -
  obtain z0 z1 y0 y1 x0 x1 where b: "b = ((z0, z1), (y0, y1), (x0, x1))"
    by (cases b) auto
  obtain d0 d1 d2 where d: "shape m = (d0, d1, d2)" by (cases "shape m") auto
  from sm have ext: "int d0 = z1 - z0" "int d1 = y1 - y0" "int d2 = x1 - x0"
    by (simp_all add: shape_matches_def b d)
  from min_starts_le [OF mem mins b] have lo: "a0 \<le> z0" "a1 \<le> y0" "a2 \<le> x0" by simp_all
  from max_ends_ge [OF mem maxs b] have hi: "z1 \<le> e0" "y1 \<le> e1" "x1 \<le> e2" by simp_all
  show ?thesis
    using ext lo hi by (simp add: fits_def offsets_def sub3_def starts_def b d)
qed

lemma fused_volume:
  assumes "mbs \<noteq> []" and "\<forall>(m, b) \<in> set mbs. shape_matches m b"
  obtains v :: "real ndarray" where
    "np_zeros 0 (sub3 (max_ends mbs) (min_starts mbs)) = Some v"
    and "\<forall>(m, b) \<in> set mbs. fits (shape v) (offsets b (min_starts mbs)) (shape m)"
proof -
  obtain a0 a1 a2 where mins: "min_starts mbs = (a0, a1, a2)" by (cases "min_starts mbs") auto
  obtain e0 e1 e2 where maxs: "max_ends mbs = (e0, e1, e2)" by (cases "max_ends mbs") auto
  from assms(1) have "hd mbs \<in> set mbs" by simp
  then have mem0: "(fst (hd mbs), snd (hd mbs)) \<in> set mbs" by simp
  with assms(2) have "shape_matches (fst (hd mbs)) (snd (hd mbs))" by blast
  from fused_fits [OF mem0 this mins maxs]
  have nn: "0 \<le> e0 - a0" "0 \<le> e1 - a1" "0 \<le> e2 - a2" by simp_all
  define v :: "real ndarray" where
    "v = \<lparr>shape = (nat (e0 - a0), nat (e1 - a1), nat (e2 - a2)), cell = (\<lambda>_. 0)\<rparr>"
  have z: "np_zeros 0 (sub3 (max_ends mbs) (min_starts mbs)) = Some v"
    using nn by (simp add: np_zeros_def sub3_def mins maxs v_def)
  have f: "\<forall>(m, b) \<in> set mbs. fits (shape v) (offsets b (min_starts mbs)) (shape m)"
  proof (clarify)
    fix m b assume mem: "(m, b) \<in> set mbs"
    with assms(2) have "shape_matches m b" by auto
    from fused_fits [OF mem this mins maxs]
    show "fits (shape v) (offsets b (min_starts mbs)) (shape m)"
      by (simp add: v_def mins)
  qed
  from z f that show ?thesis by blast
qed

lemma divide_ge_shape: "shape (divide_ge v n t) = shape v"
  by (simp add: divide_ge_def)

lemma divide_ge_cell:
  "cell (divide_ge v n t) idx
     = ieee_ge (fdiv binary32 (Finite (cell v idx)) (fl binary32 (real n))) (fl binary32 t)"
  by (simp add: divide_ge_def)

lemma masks_and_bboxes_length:
  "masks_and_bboxes cluster = Some mbs \<Longrightarrow> length mbs = length cluster"
  by (induction cluster arbitrary: mbs) (auto split: option.splits)

lemma consensus_try_shape:
  assumes "get_consensus_mask_try cluster t = Some (msk, b)"
  shows "shape_matches msk b"
proof -
  from assms obtain mbs v votes where
    z: "np_zeros 0 (sub3 (max_ends mbs) (min_starts mbs)) = Some v"
    and a: "add_votes v (min_starts mbs) mbs = Some votes"
    and m: "msk = divide_ge votes (length mbs) t"
    and b: "b = combined_bbox (min_starts mbs) (max_ends mbs)"
    by (auto simp: get_consensus_mask_try_def Let_def split: option.splits if_splits)
  obtain a0 a1 a2 where mins: "min_starts mbs = (a0, a1, a2)" by (cases "min_starts mbs") auto
  obtain e0 e1 e2 where maxs: "max_ends mbs = (e0, e1, e2)" by (cases "max_ends mbs") auto
  from z have nn: "0 \<le> e0 - a0" "0 \<le> e1 - a1" "0 \<le> e2 - a2"
    and sv: "shape v = (nat (e0 - a0), nat (e1 - a1), nat (e2 - a2))"
    by (auto simp: np_zeros_def sub3_def mins maxs split: if_splits)
  from add_votes_shape [OF a] sv nn show ?thesis
    by (simp add: shape_matches_def m b divide_ge_shape combined_bbox_def mins maxs)
qed

lemma covers_mask_at:
  assumes sm: "shape_matches m b" and b: "b = ((z0, z1), (y0, y1), (x0, x1))"
    and lo: "a0 \<le> z0" "a1 \<le> y0" "a2 \<le> x0"
  shows "covers m (offsets b (a0, a1, a2)) (k, i, j)
     \<longleftrightarrow> mask_at m b (a0 + int k, a1 + int i, a2 + int j)"
proof -
  obtain d0 d1 d2 where d: "shape m = (d0, d1, d2)" by (cases "shape m") auto
  from sm have ext: "int d0 = z1 - z0" "int d1 = y1 - y0" "int d2 = x1 - x0"
    by (simp_all add: shape_matches_def b d)
  have n: "nat (a0 + int k - z0) = k - nat (z0 - a0)" "nat (a1 + int i - y0) = i - nat (y0 - a1)"
    "nat (a2 + int j - x0) = j - nat (x0 - a2)"
    using lo by linarith+
  have r: "nat (z0 - a0) \<le> k \<longleftrightarrow> z0 \<le> a0 + int k" "nat (y0 - a1) \<le> i \<longleftrightarrow> y0 \<le> a1 + int i"
    "nat (x0 - a2) \<le> j \<longleftrightarrow> x0 \<le> a2 + int j"
    using lo by linarith+
  have u: "k < nat (z0 - a0) + d0 \<longleftrightarrow> a0 + int k < z1" "i < nat (y0 - a1) + d1 \<longleftrightarrow> a1 + int i < y1"
    "j < nat (x0 - a2) + d2 \<longleftrightarrow> a2 + int j < x1"
    using lo ext by linarith+
  show ?thesis
    by (simp add: covers_def mask_at_def offsets_def sub3_def starts_def b d n r u)
qed

lemma covers_votes_at:
  assumes sm: "\<forall>(m, b) \<in> set mbs. shape_matches m b"
    and lo: "\<forall>(m, b) \<in> set mbs. a0 \<le> fst (fst b) \<and> a1 \<le> fst (fst (snd b))
        \<and> a2 \<le> fst (snd (snd b))"
  shows "length (filter (\<lambda>(m, b). covers m (offsets b (a0, a1, a2)) (k, i, j)) mbs)
     = votes_at mbs (a0 + int k, a1 + int i, a2 + int j)"
proof -
  have "filter (\<lambda>(m, b). covers m (offsets b (a0, a1, a2)) (k, i, j)) mbs
      = filter (\<lambda>(m, b). mask_at m b (a0 + int k, a1 + int i, a2 + int j)) mbs"
  proof (rule filter_cong [OF refl])
    fix mb assume mem: "mb \<in> set mbs"
    obtain m z0 z1 y0 y1 x0 x1 where mb: "mb = (m, ((z0, z1), (y0, y1), (x0, x1)))"
      by (cases mb) auto
    from mem sm have s: "shape_matches m ((z0, z1), (y0, y1), (x0, x1))" by (auto simp: mb)
    from mem lo have l: "a0 \<le> z0" "a1 \<le> y0" "a2 \<le> x0" by (auto simp: mb)
    from covers_mask_at [OF s refl l]
    show "(case mb of (m, b) \<Rightarrow> covers m (offsets b (a0, a1, a2)) (k, i, j))
        = (case mb of (m, b) \<Rightarrow> mask_at m b (a0 + int k, a1 + int i, a2 + int j))"
      by (simp add: mb)
  qed
  then show ?thesis by (simp add: votes_at_def)
qed

lemma min_starts_lower:
  assumes "min_starts mbs = (a0, a1, a2)"
  shows "\<forall>(m, b) \<in> set mbs. a0 \<le> fst (fst b) \<and> a1 \<le> fst (fst (snd b))
        \<and> a2 \<le> fst (snd (snd b))"
proof (clarify)
  fix m z0 z1 y0 y1 x0 x1
  assume "(m, ((z0, z1), (y0, y1), (x0, x1))) \<in> set mbs"
  from min_starts_le [OF this assms refl]
  show "a0 \<le> fst (fst ((z0, z1), (y0, y1), (x0, x1)))
      \<and> a1 \<le> fst (fst (snd ((z0, z1), (y0, y1), (x0, x1))))
      \<and> a2 \<le> fst (snd (snd ((z0, z1), (y0, y1), (x0, x1))))"
    by simp
qed

lemma fused_votes:
  assumes ne: "mbs \<noteq> []" and sm: "\<forall>(m, b) \<in> set mbs. shape_matches m b"
    and mins: "min_starts mbs = (a0, a1, a2)" and maxs: "max_ends mbs = (e0, e1, e2)"
  shows "\<exists>v votes. np_zeros 0 (sub3 (max_ends mbs) (min_starts mbs)) = Some v
     \<and> shape v = (nat (e0 - a0), nat (e1 - a1), nat (e2 - a2))
     \<and> a0 \<le> e0 \<and> a1 \<le> e1 \<and> a2 \<le> e2
     \<and> add_votes v (min_starts mbs) mbs = Some votes \<and> shape votes = shape v
     \<and> (\<forall>k i j. cell votes (k, i, j)
           = real (min (votes_at mbs (a0 + int k, a1 + int i, a2 + int j)) (2 ^ 24)))"
proof -
  from fused_volume [OF ne sm] obtain v :: "real ndarray" where
    z: "np_zeros 0 (sub3 (max_ends mbs) (min_starts mbs)) = Some v"
    and f: "\<forall>(m, b) \<in> set mbs. fits (shape v) (offsets b (min_starts mbs)) (shape m)"
    by blast
  from z have c0: "\<forall>idx. cell v idx = real (min ((\<lambda>_. 0) idx) (2 ^ 24))"
    and sv: "shape v = (nat (e0 - a0), nat (e1 - a1), nat (e2 - a2))"
    and nn: "a0 \<le> e0" "a1 \<le> e1" "a2 \<le> e2"
    by (auto simp: np_zeros_def sub3_def mins maxs split: prod.splits if_splits)
  from add_votes_fits [OF f c0] obtain votes where
    a: "add_votes v (min_starts mbs) mbs = Some votes" and sh: "shape votes = shape v"
    and c: "\<forall>idx. cell votes idx = real (min (0
         + length (filter (\<lambda>(m, b). covers m (offsets b (min_starts mbs)) idx) mbs)) (2 ^ 24))"
    by blast
  have "\<forall>k i j. cell votes (k, i, j)
           = real (min (votes_at mbs (a0 + int k, a1 + int i, a2 + int j)) (2 ^ 24))"
    using c covers_votes_at [OF sm min_starts_lower [OF mins]] by (simp add: mins)
  with z sv nn a sh show ?thesis by blast
qed

lemma consensus_try_cells:
  assumes mb: "masks_and_bboxes cluster = Some mbs" and ne: "mbs \<noteq> []"
    and sm: "\<forall>(m, b) \<in> set mbs. shape_matches m b"
    and mins: "min_starts mbs = (a0, a1, a2)" and maxs: "max_ends mbs = (e0, e1, e2)"
  shows "\<exists>msk. get_consensus_mask_try cluster t = Some (msk, ((a0, e0), (a1, e1), (a2, e2)))
     \<and> (\<forall>k i j. cell msk (k, i, j)
           = ieee_ge (fdiv binary32
                 (Finite (real (min (votes_at mbs (a0 + int k, a1 + int i, a2 + int j)) (2 ^ 24))))
                 (fl binary32 (real (length mbs))))
               (fl binary32 t))"
proof -
  from fused_votes [OF ne sm mins maxs] obtain v votes where
    z: "np_zeros 0 (sub3 (max_ends mbs) (min_starts mbs)) = Some v"
    and a: "add_votes v (min_starts mbs) mbs = Some votes"
    and c: "\<forall>k i j. cell votes (k, i, j)
           = real (min (votes_at mbs (a0 + int k, a1 + int i, a2 + int j)) (2 ^ 24))"
    by blast
  have r: "get_consensus_mask_try cluster t =
    Some (divide_ge votes (length mbs) t, ((a0, e0), (a1, e1), (a2, e2)))"
    using mb ne z a by (simp add: get_consensus_mask_try_def Let_def combined_bbox_def mins maxs)
  show ?thesis
    using r c by (simp add: divide_ge_cell)
qed

section \<open>Properties of the aligned masks\<close>


lemma set_true_shape: "set_true msk z pix = Some msk' \<Longrightarrow> shape msk' = shape msk"
  by (auto simp: set_true_def split: prod.splits if_splits)

lemma draw_contour_shape:
  "draw_contour P bounds c z msk = Some msk' \<Longrightarrow> shape msk' = shape msk"
  by (auto simp: draw_contour_def Let_def set_true_shape split: option.splits if_splits)

lemma fill_valid_shape:
  "fill_valid P bounds valid msk = Some msk' \<Longrightarrow> shape msk' = shape msk"
proof (induction valid arbitrary: msk)
  case Nil
  then show ?case by simp
next
  case (Cons cz valid)
  obtain c z where cz: "cz = (c, z)" by (cases cz)
  from Cons.prems obtain w where w: "draw_contour P bounds c z msk = Some w"
    and r: "fill_valid P bounds valid w = Some msk'"
    by (auto simp: cz split: option.splits)
  from Cons.IH [OF r] draw_contour_shape [OF w] show ?case by simp
qed

lemma fill_annotation_shape:
  "fill_annotation P bounds origin spacing cs msk = Some msk' \<Longrightarrow> shape msk' = shape msk"
proof (induction cs arbitrary: msk)
  case Nil
  then show ?case by simp
next
  case (Cons c cs)
  from Cons.prems obtain z where z: "z_index (image_z_position c) origin spacing = Some z"
    by (auto split: option.splits)
  show ?case
  proof (cases "fst (fst bounds) \<le> z \<and> z \<le> snd (fst bounds)")
    case True
    with Cons.prems z obtain w where w: "draw_contour P bounds c z msk = Some w"
      and r: "fill_annotation P bounds origin spacing cs w = Some msk'"
      by (auto split: option.splits)
    from Cons.IH [OF r] draw_contour_shape [OF w] show ?thesis by simp
  next
    case False
    with Cons.prems z have "fill_annotation P bounds origin spacing cs msk = Some msk'"
      by auto
    from Cons.IH [OF this] show ?thesis .
  qed
qed

lemma np_zeros_Some:
  "np_zeros x sh = Some a \<Longrightarrow>
     shape a = (nat (fst sh), nat (fst (snd sh)), nat (snd (snd sh)))
     \<and> 0 \<le> fst sh \<and> 0 \<le> fst (snd sh) \<and> 0 \<le> snd (snd sh) \<and> cell a = (\<lambda>_. x)"
  by (auto simp: np_zeros_def split: prod.splits if_splits)

lemma shape_matches_bounds:
  assumes "shape a = (nat (fst (mask_shape bounds)), nat (fst (snd (mask_shape bounds))),
      nat (snd (snd (mask_shape bounds))))"
    and "0 \<le> fst (mask_shape bounds)" and "0 \<le> fst (snd (mask_shape bounds))"
    and "0 \<le> snd (snd (mask_shape bounds))"
  shows "shape_matches a (bounds_bbox bounds)"
  using assms
  by (cases bounds) (auto simp: shape_matches_def bounds_bbox_def mask_shape_def)

lemma aligned_mask_try_shape:
  assumes "get_aligned_mask_try P ann origin spacing ct_shape = Some (msk, b)"
  shows "shape_matches msk b"
proof -
  from assms obtain valid bounds z where
    z: "np_zeros False (mask_shape bounds) = Some z"
    and f: "fill_valid P bounds valid z = Some msk"
    and b: "b = bounds_bbox bounds"
    by (auto simp: get_aligned_mask_try_def split: option.splits if_splits)
  from fill_valid_shape [OF f] np_zeros_Some [OF z] show ?thesis
    unfolding b by (intro shape_matches_bounds) simp_all
qed

lemma add_mask_shape: "shape (add_mask v m) = shape v"
  by (simp add: add_mask_def)

lemma count_votes_cells:
  assumes "count_votes P bounds origin spacing cluster v = Some v'"
    and "\<forall>idx. cell v idx = real (min (c idx) (2 ^ 24))"
  shows "shape v' = shape v
    \<and> (\<forall>a \<in> set cluster. annotation_mask P bounds origin spacing a \<noteq> None)
    \<and> (\<forall>idx. cell v' idx = real (min (c idx
          + length (filter (\<lambda>a. in_annotation_mask P bounds origin spacing a idx) cluster))
          (2 ^ 24)))"
  using assms
proof (induction cluster arbitrary: v c)
  case Nil
  then show ?case by simp
next
  case (Cons a cluster)
  from Cons.prems(1) obtain am where am: "annotation_mask P bounds origin spacing a = Some am"
    and r: "count_votes P bounds origin spacing cluster (add_mask v am) = Some v'"
    by (auto split: option.splits)
  define c' where "c' = (\<lambda>idx. c idx + (if cell am idx then 1 else 0))"
  have mv: "in_annotation_mask P bounds origin spacing a idx = cell am idx" for idx
    by (simp add: in_annotation_mask_def am)
  have cw: "\<forall>idx. cell (add_mask v am) idx = real (min (c' idx) (2 ^ 24))"
  proof
    fix idx
    from Cons.prems(2) have cv: "cell v idx = real (min (c idx) (2 ^ 24))" by (rule spec)
    show "cell (add_mask v am) idx = real (min (c' idx) (2 ^ 24))"
    proof (cases "cell am idx")
      case True
      then have "cell (add_mask v am) idx = round_to 24 (- 126) (cell v idx + 1)"
        by (simp add: add_mask_def)
      also have "\<dots> = round_to 24 (- 126) (real (min (c idx) (2 ^ 24)) + 1)"
        by (simp only: cv)
      also have "\<dots> = real (min (min (c idx) (2 ^ 24) + 1) (2 ^ 24))"
        by (rule float32_succ) simp
      also have "\<dots> = real (min (c idx + 1) (2 ^ 24))" by (rule saturated_step)
      also have "c idx + 1 = c' idx" using True by (simp add: c'_def)
      finally show ?thesis .
    next
      case False
      then have "cell (add_mask v am) idx = cell v idx" by (simp add: add_mask_def)
      moreover from False have "c' idx = c idx" by (simp add: c'_def)
      ultimately show ?thesis using cv by (simp only:)
    qed
  qed
  from Cons.IH [OF r cw] have s: "shape v' = shape (add_mask v am)"
    and n: "\<forall>a \<in> set cluster. annotation_mask P bounds origin spacing a \<noteq> None"
    and k: "\<forall>idx. cell v' idx = real (min (c' idx
          + length (filter (\<lambda>a. in_annotation_mask P bounds origin spacing a idx) cluster))
          (2 ^ 24))"
    by simp_all
  have "\<forall>idx. cell v' idx = real (min (c idx
          + length (filter (\<lambda>a. in_annotation_mask P bounds origin spacing a idx) (a # cluster)))
          (2 ^ 24))"
    using k by (simp add: c'_def mv)
  with s n am show ?case by (simp add: add_mask_def)
qed

lemma aligned_vote_volume_nonempty:
  assumes "aligned_vote_volume P cluster origin spacing ct_shape = Some r"
  shows "cluster \<noteq> []"
proof
  assume "cluster = []"
  then have "valid_contours (concat (map contours cluster)) origin spacing ct_shape = Some []"
    by (simp add: valid_contours_def)
  then have "aligned_vote_volume P cluster origin spacing ct_shape = None"
    by (simp add: aligned_vote_volume_def)
  with assms show False by simp
qed

lemma aligned_vote_volume_cells:
  assumes "aligned_vote_volume P cluster origin spacing ct_shape = Some (votes, bounds)"
  shows "shape_matches votes (bounds_bbox bounds)
    \<and> (\<forall>a \<in> set cluster. annotation_mask P bounds origin spacing a \<noteq> None)
    \<and> (\<forall>idx. cell votes idx = real (min
          (length (filter (\<lambda>a. in_annotation_mask P bounds origin spacing a idx) cluster))
          (2 ^ 24)))"
proof -
  from assms obtain z where
    z: "np_zeros (0::real) (mask_shape bounds) = Some z"
    and c: "count_votes P bounds origin spacing cluster z = Some votes"
    by (auto simp: aligned_vote_volume_def split: option.splits if_splits)
  note zs = np_zeros_Some [OF z]
  from zs have c0: "\<forall>idx. cell z idx = real (min ((\<lambda>_. 0) idx) (2 ^ 24))" by simp
  note cv = count_votes_cells [OF c c0]
  have "shape_matches votes (bounds_bbox bounds)"
    using zs cv by (intro shape_matches_bounds) simp_all
  with cv show ?thesis by simp
qed

lemma aligned_consensus_try_shape:
  assumes "get_aligned_consensus_mask_try P cluster origin spacing ct t = Some (msk, b)"
  shows "shape_matches msk b"
proof -
  from assms obtain votes bounds where
    v: "aligned_vote_volume P cluster origin spacing ct = Some (votes, bounds)"
    and m: "msk = divide_ge votes (length cluster) t" and b: "b = bounds_bbox bounds"
    by (auto simp: get_aligned_consensus_mask_try_def split: option.splits)
  from aligned_vote_volume_cells [OF v] show ?thesis
    by (simp add: m b shape_matches_def divide_ge_shape)
qed

lemma for_cluster_eq_try:
  "get_aligned_mask_for_cluster P cluster origin spacing ct t
     = get_aligned_consensus_mask_try P cluster origin spacing ct t"
proof (cases "cluster = []")
  case True
  then have "aligned_vote_volume P cluster origin spacing ct = None"
    using aligned_vote_volume_nonempty [of P cluster origin spacing ct]
    by (cases "aligned_vote_volume P cluster origin spacing ct") auto
  with True show ?thesis
    by (simp add: get_aligned_mask_for_cluster_def get_aligned_consensus_mask_try_def)
next
  case False
  then show ?thesis
    by (simp add: get_aligned_mask_for_cluster_def get_aligned_consensus_mask_try_def)
qed

text \<open>
  Claim C8: every (mask, bbox) pair that \<^verbatim>\<open>get_aligned_mask\<close>, \<^verbatim>\<open>get_consensus_mask\<close>,
  \<^verbatim>\<open>get_aligned_consensus_mask\<close> or \<^verbatim>\<open>get_aligned_mask_for_cluster\<close> returns satisfies
  mask.shape = bbox extents: on each of the three axes the extent of the mask is the stop
  of the box minus its start.
\<close>

theorem mask_shape_equals_bbox_extents:
  "(get_aligned_mask P ld uid i origin spacing ct = Inr (Some (m1, b1)) \<longrightarrow> shape_matches m1 b1)
   \<and> (get_consensus_mask ld uid n t = Inr (Some (m2, b2)) \<longrightarrow> shape_matches m2 b2)
   \<and> (get_aligned_consensus_mask P ld uid n origin spacing ct t = Inr (Some (m3, b3))
        \<longrightarrow> shape_matches m3 b3)
   \<and> (get_aligned_mask_for_cluster P cluster origin spacing ct t = Some (m4, b4)
        \<longrightarrow> shape_matches m4 b4)"
proof (intro conjI impI)
  assume "get_aligned_mask P ld uid i origin spacing ct = Inr (Some (m1, b1))"
  then obtain ann where "get_aligned_mask_try P ann origin spacing ct = Some (m1, b1)"
    by (auto simp: get_aligned_mask_def split: option.splits if_splits sum.splits)
  then show "shape_matches m1 b1" by (rule aligned_mask_try_shape)
next
  assume "get_consensus_mask ld uid n t = Inr (Some (m2, b2))"
  then obtain cl where "get_consensus_mask_try cl t = Some (m2, b2)"
    by (auto simp: get_consensus_mask_def Let_def split: option.splits if_splits sum.splits)
  then show "shape_matches m2 b2" by (rule consensus_try_shape)
next
  assume "get_aligned_consensus_mask P ld uid n origin spacing ct t = Inr (Some (m3, b3))"
  then obtain cl where "get_aligned_consensus_mask_try P cl origin spacing ct t = Some (m3, b3)"
    by (auto simp: get_aligned_consensus_mask_def Let_def
        split: option.splits if_splits sum.splits)
  then show "shape_matches m3 b3" by (rule aligned_consensus_try_shape)
next
  assume "get_aligned_mask_for_cluster P cluster origin spacing ct t = Some (m4, b4)"
  then show "shape_matches m4 b4"
    unfolding for_cluster_eq_try by (rule aligned_consensus_try_shape)
qed

lemma ex_aligned_mask:
  "(case get_aligned_mask box_polygon ex_loader ''1.3.6.1'' 0 (0, 0, 0) (1, 1, 1) (4, 4, 4) of
      Inr (Some (m, b)) \<Rightarrow> shape m = (1, 3, 3) \<and> b = ((1, 2), (0, 3), (0, 3)) \<and> cell m (0, 1, 1)
    | _ \<Rightarrow> False)"
  by code_simp

lemma ex_consensus_mask:
  "(case get_consensus_mask ex_loader ''1.3.6.1'' 0 (1 / 2) of
      Inr (Some (m, b)) \<Rightarrow> shape m = (1, 1, 3) \<and> b = ((0, 1), (0, 1), (0, 3)) \<and> cell m (0, 0, 0)
    | _ \<Rightarrow> False)"
  by code_simp

lemma ex_aligned_consensus_mask:
  "(case get_aligned_consensus_mask box_polygon ex_loader ''1.3.6.1'' 0 (0, 0, 0) (1, 1, 1)
          (4, 4, 4) (1 / 2) of
      Inr (Some (m, b)) \<Rightarrow> shape m = (1, 3, 3) \<and> b = ((1, 2), (0, 3), (0, 3)) \<and> cell m (0, 1, 1)
    | _ \<Rightarrow> False)"
  by code_simp

lemma ex_for_cluster:
  "(case get_aligned_mask_for_cluster box_polygon [ex_inside, ex_outside] (0, 0, 0) (1, 1, 1)
          (4, 4, 4) (1 / 2) of
      Some (m, b) \<Rightarrow> shape m = (1, 3, 3) \<and> b = ((1, 2), (0, 3), (0, 3)) \<and> cell m (0, 1, 1)
    | None \<Rightarrow> False)"
  by code_simp

theorem mask_shape_equals_bbox_extents_witness:
  "(case get_aligned_mask box_polygon ex_loader ''1.3.6.1'' 0 (0, 0, 0) (1, 1, 1) (4, 4, 4) of
      Inr (Some (m, b)) \<Rightarrow> shape_matches m b \<and> shape m = (1, 3, 3) \<and> b = ((1, 2), (0, 3), (0, 3))
    | _ \<Rightarrow> False)
   \<and> (case get_consensus_mask ex_loader ''1.3.6.1'' 0 (1 / 2) of
      Inr (Some (m, b)) \<Rightarrow> shape_matches m b \<and> shape m = (1, 1, 3) \<and> b = ((0, 1), (0, 1), (0, 3))
    | _ \<Rightarrow> False)
   \<and> (case get_aligned_consensus_mask box_polygon ex_loader ''1.3.6.1'' 0 (0, 0, 0) (1, 1, 1)
          (4, 4, 4) (1 / 2) of
      Inr (Some (m, b)) \<Rightarrow> shape_matches m b \<and> shape m = (1, 3, 3) \<and> b = ((1, 2), (0, 3), (0, 3))
    | _ \<Rightarrow> False)
   \<and> (case get_aligned_mask_for_cluster box_polygon [ex_inside, ex_outside] (0, 0, 0) (1, 1, 1)
          (4, 4, 4) (1 / 2) of
      Some (m, b) \<Rightarrow> shape_matches m b \<and> shape m = (1, 3, 3) \<and> b = ((1, 2), (0, 3), (0, 3))
    | None \<Rightarrow> False)"
  using ex_aligned_mask ex_consensus_mask ex_aligned_consensus_mask ex_for_cluster
    mask_shape_equals_bbox_extents [of box_polygon ex_loader "''1.3.6.1''" 0 "(0, 0, 0)"
      "(1, 1, 1)" "(4, 4, 4)" _ _ 0 "1 / 2" _ _ _ _ "[ex_inside, ex_outside]"]
  by (auto split: sum.splits option.splits)

section \<open>The divisor of the vote\<close>

lemma z_indices_zip:
  "z_indices cs origin spacing = Some zs \<Longrightarrow> (c, z) \<in> set (zip cs zs)
     \<Longrightarrow> c \<in> set cs \<and> z_index (image_z_position c) origin spacing = Some z"
proof (induction cs arbitrary: zs)
  case Nil
  then show ?case by simp
next
  case (Cons c' cs)
  from Cons.prems(1) obtain z' zs' where z': "z_index (image_z_position c') origin spacing = Some z'"
    and zs': "z_indices cs origin spacing = Some zs'" and zs: "zs = z' # zs'"
    by (auto split: option.splits)
  from Cons.prems(2) have "(c, z) = (c', z') \<or> (c, z) \<in> set (zip cs zs')"
    by (simp add: zs)
  then show ?case
  proof
    assume "(c, z) = (c', z')"
    with z' show ?thesis by simp
  next
    assume "(c, z) \<in> set (zip cs zs')"
    from Cons.IH [OF zs' this] show ?thesis by simp
  qed
qed

lemma valid_contours_member:
  assumes "valid_contours cs origin spacing ct = Some valid" and "(c, z) \<in> set valid"
  shows "c \<in> set cs \<and> z_index (image_z_position c) origin spacing = Some z
    \<and> 0 \<le> z \<and> z < fst ct"
proof -
  from assms(1) obtain zs where zs: "z_indices cs origin spacing = Some zs"
    and v: "valid = filter (\<lambda>(c, z). 0 \<le> z \<and> z < fst ct) (zip cs zs)"
    by (auto simp: valid_contours_def split: option.splits)
  from assms(2) have "(c, z) \<in> set (zip cs zs)" and r: "0 \<le> z \<and> z < fst ct"
    by (simp_all add: v)
  from z_indices_zip [OF zs this(1)] r show ?thesis by simp
qed

lemma no_contour_in_range:
  assumes "\<forall>a \<in> set cluster. \<forall>c \<in> set (contours a). \<forall>z.
      z_index (image_z_position c) origin spacing = Some z \<longrightarrow> \<not> (0 \<le> z \<and> z < fst ct)"
  shows "aligned_vote_volume P cluster origin spacing ct = None"
proof (cases "valid_contours (concat (map contours cluster)) origin spacing ct")
  case None
  then show ?thesis by (simp add: aligned_vote_volume_def)
next
  case (Some valid)
  have "valid = []"
  proof (rule ccontr)
    assume "valid \<noteq> []"
    then have "hd valid \<in> set valid" by simp
    then have "(fst (hd valid), snd (hd valid)) \<in> set valid" by simp
    from valid_contours_member [OF Some this] assms show False by auto
  qed
  with Some show ?thesis by (simp add: aligned_vote_volume_def)
qed

text \<open>
  Claim C10: in the cluster-consensus operations the vote volume is divided by the length
  of the cluster only after the volume has been built, and whenever it has been built the
  cluster is not empty, so the divisor is a positive integer. For an empty cluster, and
  for a cluster none of whose contours maps into the slice range of the volume, both
  operations return the no-data result before the division.
\<close>

theorem consensus_divisor_positive:
  "(aligned_vote_volume P cluster origin spacing ct = Some (votes, bounds) \<longrightarrow> 0 < length cluster)
   \<and> (get_aligned_mask_for_cluster P cluster origin spacing ct t = Some r \<longrightarrow> 0 < length cluster)
   \<and> (get_aligned_consensus_mask_try P cluster origin spacing ct t = Some r'
        \<longrightarrow> 0 < length cluster)
   \<and> (cluster = [] \<longrightarrow>
        get_aligned_mask_for_cluster P cluster origin spacing ct t = None
        \<and> get_aligned_consensus_mask_try P cluster origin spacing ct t = None)
   \<and> ((\<forall>a \<in> set cluster. \<forall>c \<in> set (contours a). \<forall>z.
          z_index (image_z_position c) origin spacing = Some z \<longrightarrow> \<not> (0 \<le> z \<and> z < fst ct))
        \<longrightarrow> get_aligned_mask_for_cluster P cluster origin spacing ct t = None
          \<and> get_aligned_consensus_mask_try P cluster origin spacing ct t = None)"
proof -
  have a: "aligned_vote_volume P cluster origin spacing ct = Some x \<Longrightarrow> 0 < length cluster" for x
    using aligned_vote_volume_nonempty [of P cluster origin spacing ct x] by simp
  have b: "get_aligned_consensus_mask_try P cluster origin spacing ct t = Some x
      \<Longrightarrow> 0 < length cluster" for x
    using a by (auto simp: get_aligned_consensus_mask_try_def split: option.splits)
  have c: "aligned_vote_volume P cluster origin spacing ct = None
      \<Longrightarrow> get_aligned_consensus_mask_try P cluster origin spacing ct t = None"
    by (simp add: get_aligned_consensus_mask_try_def)
  have d: "cluster = [] \<Longrightarrow> aligned_vote_volume P cluster origin spacing ct = None"
    using a by (cases "aligned_vote_volume P cluster origin spacing ct") auto
  show ?thesis
    unfolding for_cluster_eq_try
  proof (intro conjI impI)
    assume "\<forall>a \<in> set cluster. \<forall>c \<in> set (contours a). \<forall>z.
        z_index (image_z_position c) origin spacing = Some z \<longrightarrow> \<not> (0 \<le> z \<and> z < fst ct)"
    then have "aligned_vote_volume P cluster origin spacing ct = None"
      by (rule no_contour_in_range)
    then show "get_aligned_consensus_mask_try P cluster origin spacing ct t = None"
      "get_aligned_consensus_mask_try P cluster origin spacing ct t = None"
      by (simp_all add: c)
  qed (use a b c d in simp_all)
qed

theorem consensus_divisor_positive_witness:
  "(case aligned_vote_volume box_polygon [ex_inside, ex_outside] (0, 0, 0) (1, 1, 1) (4, 4, 4) of
      Some (v, b) \<Rightarrow> b = ((1, 1), (0, 3), (0, 3)) \<and> cell v (0, 1, 1) = 1
    | None \<Rightarrow> False)
   \<and> 0 < length [ex_inside, ex_outside]
   \<and> get_aligned_mask_for_cluster box_polygon [] (0, 0, 0) (1, 1, 1) (4, 4, 4) (1 / 2) = None
   \<and> z_index (image_z_position (ex_square 9)) (0, 0, 0) (1, 1, 1) = Some 9
   \<and> get_aligned_mask_for_cluster box_polygon [ex_outside] (0, 0, 0) (1, 1, 1) (4, 4, 4) (1 / 2)
       = None
   \<and> get_aligned_consensus_mask_try box_polygon [ex_outside] (0, 0, 0) (1, 1, 1) (4, 4, 4) (1 / 2)
       = None"
proof -
  have e: "(case aligned_vote_volume box_polygon [ex_inside, ex_outside] (0, 0, 0) (1, 1, 1)
        (4, 4, 4) of
      Some (v, b) \<Rightarrow> b = ((1, 1), (0, 3), (0, 3)) \<and> cell v (0, 1, 1) = 1
    | None \<Rightarrow> False)"
    by code_simp
  then obtain v b where
    s: "aligned_vote_volume box_polygon [ex_inside, ex_outside] (0, 0, 0) (1, 1, 1) (4, 4, 4)
          = Some (v, b)"
    by (auto split: option.splits)
  have z: "z_index (image_z_position (ex_square 9)) (0, 0, 0) (1, 1, 1) = Some 9"
    by code_simp
  have o: "\<forall>a \<in> set [ex_outside]. \<forall>c \<in> set (contours a). \<forall>z.
      z_index (image_z_position c) (0, 0, 0) (1, 1, 1) = Some z
        \<longrightarrow> \<not> (0 \<le> z \<and> z < fst (4 :: int, 4 :: int, 4 :: int))"
    by (simp add: ex_outside_def z)
  from consensus_divisor_positive
    [of box_polygon "[ex_inside, ex_outside]" "(0, 0, 0)" "(1, 1, 1)" "(4, 4, 4)" v b] s
  have p: "0 < length [ex_inside, ex_outside]" by blast
  from consensus_divisor_positive [of box_polygon "[]" "(0, 0, 0)" "(1, 1, 1)" "(4, 4, 4)"]
  have n: "get_aligned_mask_for_cluster box_polygon [] (0, 0, 0) (1, 1, 1) (4, 4, 4) (1 / 2)
      = None"
    by blast
  from consensus_divisor_positive
    [of box_polygon "[ex_outside]" "(0, 0, 0)" "(1, 1, 1)" "(4, 4, 4)" _ _ "1 / 2"] o
  have q: "get_aligned_mask_for_cluster box_polygon [ex_outside] (0, 0, 0) (1, 1, 1) (4, 4, 4)
        (1 / 2) = None
    \<and> get_aligned_consensus_mask_try box_polygon [ex_outside] (0, 0, 0) (1, 1, 1) (4, 4, 4)
        (1 / 2) = None"
    by blast
  from e p n z q show ?thesis by blast
qed



end
